theory Spec2Isabelle
  imports Main
begin

section \<open>JavaScript values used by the rhyme analyzer\<close>

text \<open>
  A JavaScript string is a sequence of UTF-16 code units. The analyzer compares strings,
  joins them and builds them from templates, so a string is modelled as the list of its
  code units. A code unit is a number below 65536; it is taken as an integer, and since
  the analyzer never computes with code units the bound plays no role. ASCII literals are
  written through \<open>ascii\<close>; the Chinese literals of the source are given by their code
  units.
\<close>

type_synonym jsstring = "int list"

definition ascii :: "string \<Rightarrow> jsstring" where
  "ascii s = map of_char s"

text \<open>\<open>String(n)\<close> for a non-negative integer: its decimal digits, no leading zero.\<close>

definition digit :: "nat \<Rightarrow> int" where
  "digit d = int (48 + d)"

function decimal :: "nat \<Rightarrow> jsstring" where
  "decimal n = (if n < 10 then [digit n] else decimal (n div 10) @ [digit (n mod 10)])"
  by pat_completeness auto
termination
  by (relation "measure (\<lambda>n. n)") auto

text \<open>\<open>Array.prototype.join\<close> on an array of strings.\<close>

fun join :: "jsstring list \<Rightarrow> jsstring \<Rightarrow> jsstring" where
  "join [] sep = []"
| "join [x] sep = x"
| "join (x # y # ys) sep = x @ sep @ join (y # ys) sep"

text \<open>\<open>String.prototype.includes\<close>: the pattern occurs as a contiguous run.\<close>

fun strIncludes :: "jsstring \<Rightarrow> jsstring \<Rightarrow> bool" where
  "strIncludes [] pat = (pat = [])"
| "strIncludes (c # cs) pat = (take (length pat) (c # cs) = pat \<or> strIncludes cs pat)"

text \<open>\<open>String.prototype.padStart(n, '0')\<close>.\<close>

definition padStart :: "jsstring \<Rightarrow> nat \<Rightarrow> jsstring" where
  "padStart s n = replicate (n - length s) (digit 0) @ s"

text \<open>
  The untyped input of \<open>analyzeRhymePatterns\<close>. An object is the list of its own
  properties; reading a property that is absent gives \<open>undefined\<close>.
\<close>

datatype jsval =
    JUndefined
  | JNull
  | JBool bool
  | JNum int
  | JStr jsstring
  | JArr "jsval list"
  | JObj "(jsstring \<times> jsval) list"

fun getProp :: "jsval \<Rightarrow> jsstring \<Rightarrow> jsval" where
  "getProp (JObj ps) k = (case map_of ps k of None \<Rightarrow> JUndefined | Some v \<Rightarrow> v)"
| "getProp v k = JUndefined"

text \<open>\<open>typeof v !== 'object' || v === null\<close>: arrays are objects too.\<close>

fun notObject :: "jsval \<Rightarrow> bool" where
  "notObject (JObj ps) = False"
| "notObject (JArr vs) = False"
| "notObject v = True"

fun isString :: "jsval \<Rightarrow> bool" where
  "isString (JStr s) = True"
| "isString v = False"

fun isArray :: "jsval \<Rightarrow> bool" where
  "isArray (JArr vs) = True"
| "isArray v = False"

section \<open>Data model\<close>

text \<open>
  Field names follow the source. Where two objects of the source share a field name, or
  the name is a constant of HOL, the field carries a prefix: \<open>slength\<close> is the span's
  \<open>length\<close>, \<open>pline\<close>, \<open>pchar\<close>, \<open>plength\<close> are the position's \<open>line\<close>, \<open>char\<close>,
  \<open>length\<close>, \<open>m_\<close> marks a field of a match and \<open>r_\<close> a field of a result.
\<close>

record charInfo =
  char :: jsstring
  pinyin :: jsstring
  normalGroup :: jsstring
  strictGroup :: jsstring

record lineGroup =
  line :: jsstring
  charInfos :: "charInfo list"

record span =
  lineIndex :: nat
  startIndex :: nat
  endIndex :: nat
  slength :: nat
  sequence :: "jsstring list"
  sequenceKey :: jsstring
  chars :: "jsstring list"
  pinyins :: "jsstring list"
  isEndOfLine :: bool
  priorityScore :: int

section \<open>Span extraction\<close>

definition getSequenceKey :: "jsstring list \<Rightarrow> jsstring" where
  "getSequenceKey sq = join sq (ascii ''_'')"

text \<open>The sentinel label of a character without a rhyme class (two CJK code units).\<close>

definition unknownGroup :: jsstring where
  "unknownGroup = [0x672A, 0x77E5]"

text \<open>
  The innermost loop of \<open>extractAllRhymeSequences\<close>: it walks the characters of the range
  in order, collecting labels, characters and transcriptions, and stops with
  \<open>hasUnknownRhyme\<close> (here \<open>None\<close>) at the first unknown or empty label.
\<close>

fun scanRange ::
  "charInfo list \<Rightarrow> jsstring list \<times> jsstring list \<times> jsstring list \<Rightarrow>
   (jsstring list \<times> jsstring list \<times> jsstring list) option" where
  "scanRange [] acc = Some acc"
| "scanRange (c # cs) (rs, chs, ps) =
     (if normalGroup c = unknownGroup \<or> normalGroup c = [] then None
      else scanRange cs (rs @ [normalGroup c], chs @ [char c], ps @ [pinyin c]))"

text \<open>The characters \<open>startIndex..endIndex\<close> of a line, for \<open>endIndex\<close> inside the line.\<close>

definition rangeOf :: "'a list \<Rightarrow> nat \<Rightarrow> nat \<Rightarrow> 'a list" where
  "rangeOf xs s e = take (e + 1 - s) (drop s xs)"

definition buildSpan :: "nat \<Rightarrow> charInfo list \<Rightarrow> nat \<Rightarrow> nat \<Rightarrow> span option" where
  "buildSpan li cis s e =
     (let maxLength = length cis;
          sequenceLength = e - s + 1;
          eol = (int e = int maxLength - 1)
      in case scanRange (rangeOf cis s e) ([], [], []) of
           None \<Rightarrow> None
         | Some (rs, chs, ps) \<Rightarrow>
             Some \<lparr> lineIndex = li, startIndex = s, endIndex = e, slength = sequenceLength,
                    sequence = rs, sequenceKey = getSequenceKey rs, chars = chs, pinyins = ps,
                    isEndOfLine = eol,
                    priorityScore = (if eol then 1000 else 0) + int sequenceLength * 10 \<rparr>)"

text \<open>The two \<open>for\<close> loops over \<open>startIndex\<close> and \<open>endIndex\<close> of one line.\<close>

definition spansOfLine :: "nat \<Rightarrow> charInfo list \<Rightarrow> span list" where
  "spansOfLine li cis =
     concat (map (\<lambda>s. List.map_filter (\<lambda>e. buildSpan li cis s e) [s..<length cis])
                 [0..<length cis])"

definition collectSpans :: "lineGroup list \<Rightarrow> span list" where
  "collectSpans rg = concat (map (\<lambda>(li, g). spansOfLine li (charInfos g)) (enumerate 0 rg))"

text \<open>
  \<open>Array.prototype.sort\<close> is stable (ECMAScript 2019), and the comparator
  \<open>b.priorityScore - a.priorityScore\<close> orders by descending score: a stable sort on the
  negated score.
\<close>

definition extractAllRhymeSequences :: "lineGroup list \<Rightarrow> span list" where
  "extractAllRhymeSequences rg = sort_key (\<lambda>s. - priorityScore s) (collectSpans rg)"

section \<open>Options\<close>

text \<open>
  The \<open>options\<close> argument. A property that is absent (\<open>None\<close>) takes the default of
  the destructuring pattern; \<open>options = {}\<close> is \<open>defaultOptions\<close>. The three flags are
  taken as booleans and the three tolerances as integers.
\<close>

record options =
  detectEndRhyme :: "bool option"
  detectInterLineRhyme :: "bool option"
  detectInternalRhyme :: "bool option"
  interLineTolerance :: "int option"
  interLineLineDiffTolerance :: "int option"
  internalRhymeTolerance :: "int option"

definition defaultOptions :: options where
  "defaultOptions =
     \<lparr> detectEndRhyme = None, detectInterLineRhyme = None, detectInternalRhyme = None,
       interLineTolerance = None, interLineLineDiffTolerance = None,
       internalRhymeTolerance = None \<rparr>"

definition orDefault :: "'a \<Rightarrow> 'a option \<Rightarrow> 'a" where
  "orDefault d v = (case v of None \<Rightarrow> d | Some x \<Rightarrow> x)"

definition useEndRhyme :: "options \<Rightarrow> bool" where
  "useEndRhyme opts = orDefault True (detectEndRhyme opts)"

definition useInterLineRhyme :: "options \<Rightarrow> bool" where
  "useInterLineRhyme opts = orDefault True (detectInterLineRhyme opts)"

definition useInternalRhyme :: "options \<Rightarrow> bool" where
  "useInternalRhyme opts = orDefault True (detectInternalRhyme opts)"

definition tolInterLine :: "options \<Rightarrow> int" where
  "tolInterLine opts = orDefault 2 (interLineTolerance opts)"

definition tolLineDiff :: "options \<Rightarrow> int" where
  "tolLineDiff opts = orDefault 4 (interLineLineDiffTolerance opts)"

definition tolInternal :: "options \<Rightarrow> int" where
  "tolInternal opts = orDefault 0 (internalRhymeTolerance opts)"

section \<open>Match generation\<close>

text \<open>
  The three rhyme types. The source stores the type as the string
  \<open>`${seq1.length}` + label\<close>; the model keeps the number and the label apart and
  \<open>renderRhymeType\<close> gives the string.
\<close>

datatype rhymeKind = EndRhyme | InterLineRhyme | InternalRhyme

fun kindLabel :: "rhymeKind \<Rightarrow> jsstring" where
  "kindLabel EndRhyme = [0x5B57, 0x53E5, 0x5C3E, 0x62BC, 0x97F5]"
| "kindLabel InterLineRhyme = [0x5B57, 0x975E, 0x53E5, 0x5C3E, 0x53E5, 0x95F4, 0x62BC, 0x97F5]"
| "kindLabel InternalRhyme = [0x5B57, 0x53E5, 0x5185, 0x62BC, 0x97F5]"

definition renderRhymeType :: "nat \<times> rhymeKind \<Rightarrow> jsstring" where
  "renderRhymeType t = decimal (fst t) @ kindLabel (snd t)"

record rhymeMatch =
  seq1 :: span
  seq2 :: span
  rhymeType :: "nat \<times> rhymeKind"
  interval :: int
  priority :: int
  sequenceLength :: nat
  m_sequence :: "jsstring list"
  m_sequenceKey :: jsstring

text \<open>
  What a call can throw: an \<open>Error\<close> with its message, or the \<open>TypeError\<close> of reading
  a property of \<open>undefined\<close>.
\<close>

datatype jsError = Error jsstring | TypeError

definition isWithinFourLines :: "span \<Rightarrow> span \<Rightarrow> int \<Rightarrow> bool" where
  "isWithinFourLines s1 s2 tolerance =
     (let lineDiff = \<bar>int (lineIndex s2) - int (lineIndex s1)\<bar> in lineDiff \<le> tolerance)"

text \<open>A helper of the source that \<open>analyzeRhymePatterns\<close> never calls.\<close>

definition isNonEndInterLineRhyme :: "span \<Rightarrow> span \<Rightarrow> int \<Rightarrow> bool" where
  "isNonEndInterLineRhyme s1 s2 tolerance =
     (if lineIndex s1 = lineIndex s2 then False
      else if isEndOfLine s1 \<or> isEndOfLine s2 then False
      else (let posDiff = \<bar>int (startIndex s1) - int (startIndex s2)\<bar> in posDiff \<le> tolerance))"

text \<open>The character gap between two spans, as both the source's functions compute it.\<close>

definition spanInterval :: "span \<Rightarrow> span \<Rightarrow> int" where
  "spanInterval s1 s2 =
     (if endIndex s1 < startIndex s2 then int (startIndex s2) - int (endIndex s1) - 1
      else if endIndex s2 < startIndex s1 then int (startIndex s1) - int (endIndex s2) - 1
      else 0)"

definition isInternalRhymeValid :: "span \<Rightarrow> span \<Rightarrow> int \<Rightarrow> bool" where
  "isInternalRhymeValid s1 s2 tolerance =
     (if lineIndex s1 \<noteq> lineIndex s2 then True
      else (let interval = spanInterval s1 s2;
                rhymeCount = int (min (slength s1) (slength s2))
            in interval \<le> rhymeCount + tolerance))"

text \<open>\<open>rhymeGroups[i].charInfos.length\<close>; outside the verse the read throws.\<close>

definition lineLength :: "lineGroup list \<Rightarrow> nat \<Rightarrow> jsError + nat" where
  "lineLength rg i = (if i < length rg then Inr (length (charInfos (rg ! i))) else Inl TypeError)"

text \<open>The object pushed to \<open>allPossibleMatches\<close>, with the length bonus added.\<close>

definition mkMatch :: "span \<Rightarrow> span \<Rightarrow> rhymeKind \<Rightarrow> int \<Rightarrow> int \<Rightarrow> rhymeMatch" where
  "mkMatch s1 s2 k iv pr =
     \<lparr> seq1 = s1, seq2 = s2, rhymeType = (slength s1, k), interval = iv,
       priority = pr + int (slength s1) * 10, sequenceLength = slength s1,
       m_sequence = sequence s1, m_sequenceKey = sequenceKey s1 \<rparr>"

text \<open>
  The body of the inner loop over pairs: \<open>Inr None\<close> when the pair gives no match (the
  \<open>continue\<close> statements and \<open>isValid = false\<close>), \<open>Inr (Some m)\<close> when \<open>m\<close> is pushed.
  The branches are tried in the source's order.
\<close>

definition classifyPair ::
  "options \<Rightarrow> lineGroup list \<Rightarrow> span \<Rightarrow> span \<Rightarrow> jsError + rhymeMatch option" where
  "classifyPair opts rg s1 s2 =
     (if \<not> isWithinFourLines s1 s2 (tolLineDiff opts) then Inr None
      else if sequenceKey s1 \<noteq> sequenceKey s2 then Inr None
      else if useEndRhyme opts \<and> (isEndOfLine s1 \<or> isEndOfLine s2) then
        (let iv = \<bar>int (lineIndex s1) - int (lineIndex s2)\<bar>
         in Inr (Some (mkMatch s1 s2 EndRhyme iv (1000 - iv))))
      else if useInterLineRhyme opts \<and> lineIndex s1 \<noteq> lineIndex s2 then
        (if join (chars s1) [] = join (chars s2) [] then Inr None
         else case lineLength rg (lineIndex s1) of
                Inl e \<Rightarrow> Inl e
              | Inr line1Length \<Rightarrow>
                 (case lineLength rg (lineIndex s2) of
                    Inl e \<Rightarrow> Inl e
                  | Inr line2Length \<Rightarrow>
                     (let forwardDiff = \<bar>int (startIndex s1) - int (startIndex s2)\<bar>;
                          reverse1 = int line1Length - 1 - int (endIndex s1);
                          reverse2 = int line2Length - 1 - int (endIndex s2);
                          reverseDiff = \<bar>reverse1 - reverse2\<bar>;
                          iv = min forwardDiff reverseDiff
                      in if iv \<le> tolInterLine opts
                         then Inr (Some (mkMatch s1 s2 InterLineRhyme iv (500 - iv)))
                         else Inr None)))
      else if useInternalRhyme opts \<and> lineIndex s1 = lineIndex s2 then
        (let iv = spanInterval s1 s2
         in if isInternalRhymeValid s1 s2 (tolInternal opts)
            then Inr (Some (mkMatch s1 s2 InternalRhyme iv (100 - iv)))
            else Inr None)
      else Inr None)"

text \<open>The pairs \<open>(allSequences[i], allSequences[j])\<close>, \<open>i < j\<close>, in the order of the loops.\<close>

fun pairsFrom :: "'a list \<Rightarrow> ('a \<times> 'a) list" where
  "pairsFrom [] = []"
| "pairsFrom (x # xs) = map (Pair x) xs @ pairsFrom xs"

fun collectMatches ::
  "options \<Rightarrow> lineGroup list \<Rightarrow> (span \<times> span) list \<Rightarrow> jsError + rhymeMatch list" where
  "collectMatches opts rg [] = Inr []"
| "collectMatches opts rg (p # ps) =
     (case classifyPair opts rg (fst p) (snd p) of
        Inl e \<Rightarrow> Inl e
      | Inr r \<Rightarrow>
         (case collectMatches opts rg ps of
            Inl e \<Rightarrow> Inl e
          | Inr ms \<Rightarrow> Inr (case r of None \<Rightarrow> ms | Some m \<Rightarrow> m # ms)))"

text \<open>\<open>allPossibleMatches\<close> after the stable sort by descending priority.\<close>

definition allPossibleMatches ::
  "options \<Rightarrow> lineGroup list \<Rightarrow> jsError + rhymeMatch list" where
  "allPossibleMatches opts rg =
     (case collectMatches opts rg (pairsFrom (extractAllRhymeSequences rg)) of
        Inl e \<Rightarrow> Inl e
      | Inr ms \<Rightarrow> Inr (sort_key (\<lambda>m. - priority m) ms))"

section \<open>Greedy selection\<close>

text \<open>The key of a cell in \<open>markedPositions\<close>: \<open>`${lineIndex}-${i}`\<close>.\<close>

definition cellKey :: "nat \<Rightarrow> nat \<Rightarrow> jsstring" where
  "cellKey li i = decimal li @ ascii ''-'' @ decimal i"

definition isSequenceMarked :: "span \<Rightarrow> jsstring set \<Rightarrow> bool" where
  "isSequenceMarked sq marked =
     list_ex (\<lambda>i. cellKey (lineIndex sq) i \<in> marked) [startIndex sq..<Suc (endIndex sq)]"

definition markSequencePositions :: "span \<Rightarrow> jsstring set \<Rightarrow> jsstring set" where
  "markSequencePositions sq marked =
     fold (\<lambda>i m. insert (cellKey (lineIndex sq) i) m) [startIndex sq..<Suc (endIndex sq)] marked"

record position =
  pline :: nat
  pchar :: nat
  plength :: nat

text \<open>
  A committed match. \<open>r_type\<close> is \<open>rhymeType.toLowerCase().replace(/\s+/g, '_')\<close>: the
  rendered type holds decimal digits and CJK ideographs only, which have no lower case and
  are not white space, so it is the rendered type itself. \<open>rhymeGroup\<close> is
  \<open>sequence[0]\<close>, \<open>undefined\<close> (\<open>None\<close>) on an empty sequence. \<open>similarity\<close> is the
  constant 1.0.
\<close>

record rhymeResult =
  r_type :: jsstring
  r_rhymeType :: "nat \<times> rhymeKind"
  rhymeGroup :: "jsstring option"
  r_sequenceLength :: nat
  r_sequence :: "jsstring list"
  positions :: "position list"
  r_chars :: "jsstring list list"
  r_pinyins :: "jsstring list list"
  similarity :: nat

definition positionOf :: "span \<Rightarrow> position" where
  "positionOf sq = \<lparr> pline = lineIndex sq, pchar = startIndex sq, plength = slength sq \<rparr>"

definition mkResult :: "rhymeMatch \<Rightarrow> rhymeResult" where
  "mkResult m =
     \<lparr> r_type = renderRhymeType (rhymeType m),
       r_rhymeType = rhymeType m,
       rhymeGroup = (case m_sequence m of [] \<Rightarrow> None | g # gs \<Rightarrow> Some g),
       r_sequenceLength = sequenceLength m,
       r_sequence = m_sequence m,
       positions = [positionOf (seq1 m), positionOf (seq2 m)],
       r_chars = [chars (seq1 m), chars (seq2 m)],
       r_pinyins = [pinyins (seq1 m), pinyins (seq2 m)],
       similarity = 1 \<rparr>"

text \<open>The working state of the selection loop.\<close>

record selection =
  markedPositions :: "jsstring set"
  committed :: "rhymeResult list"
  endRhymeCount :: nat
  internalRhymeCount :: nat

definition emptySelection :: selection where
  "emptySelection =
     \<lparr> markedPositions = {}, committed = [], endRhymeCount = 0, internalRhymeCount = 0 \<rparr>"

text \<open>The two code units of the substring that \<open>rhymeType.includes\<close> looks for.\<close>

definition endMarker :: jsstring where
  "endMarker = [0x53E5, 0x5C3E]"

text \<open>One iteration of the loop over the sorted matches.\<close>

definition selectStep :: "rhymeMatch \<Rightarrow> selection \<Rightarrow> selection" where
  "selectStep m st =
     (if \<not> isSequenceMarked (seq1 m) (markedPositions st) \<and>
         \<not> isSequenceMarked (seq2 m) (markedPositions st)
      then
        (let isEnd = strIncludes (renderRhymeType (rhymeType m)) endMarker
         in \<lparr> markedPositions =
                markSequencePositions (seq2 m) (markSequencePositions (seq1 m) (markedPositions st)),
              committed = committed st @ [mkResult m],
              endRhymeCount = (if isEnd then endRhymeCount st + 1 else endRhymeCount st),
              internalRhymeCount =
                (if isEnd then internalRhymeCount st else internalRhymeCount st + 1) \<rparr>)
      else st)"

definition selectMatches :: "rhymeMatch list \<Rightarrow> selection" where
  "selectMatches ms = fold selectStep ms emptySelection"

section \<open>Result assembly\<close>

definition colorPalette :: "jsstring list" where
  "colorPalette =
     [ascii ''#FF5733'', ascii ''#33FF57'', ascii ''#3357FF'', ascii ''#FF33A8'', ascii ''#FFC300'',
      ascii ''#C70039'', ascii ''#900C3F'', ascii ''#581845'', ascii ''#1ABC9C'', ascii ''#3498DB'']"

text \<open>A result with its identifier and colour: \<open>{id, ...result, color}\<close>.\<close>

record finalResult = rhymeResult +
  rid :: jsstring
  color :: jsstring

definition mkFinal :: "nat \<Rightarrow> rhymeResult \<Rightarrow> jsstring \<Rightarrow> finalResult" where
  "mkFinal index r c =
     \<lparr> r_type = r_type r, r_rhymeType = r_rhymeType r, rhymeGroup = rhymeGroup r,
       r_sequenceLength = r_sequenceLength r, r_sequence = r_sequence r,
       positions = positions r, r_chars = r_chars r, r_pinyins = r_pinyins r,
       similarity = similarity r,
       rid = ascii ''rhyme_'' @ padStart (decimal (index + 1)) 3,
       color = c \<rparr>"

text \<open>
  The \<open>map\<close> callback run over the committed results from \<open>index\<close> on, with the
  \<open>rhymeGroupColors\<close> map and \<open>colorIndex\<close> it updates.
\<close>

fun assignColors ::
  "rhymeResult list \<Rightarrow> nat \<Rightarrow> (jsstring \<rightharpoonup> jsstring) \<Rightarrow> nat \<Rightarrow> finalResult list" where
  "assignColors [] index colors colorIndex = []"
| "assignColors (r # rs) index colors colorIndex =
     (let key = getSequenceKey (r_sequence r)
      in case colors key of
           None \<Rightarrow>
             (let c = colorPalette ! (colorIndex mod length colorPalette)
              in mkFinal index r c #
                 assignColors rs (index + 1) (colors(key \<mapsto> c)) (colorIndex + 1))
         | Some c \<Rightarrow> mkFinal index r c # assignColors rs (index + 1) colors colorIndex)"

record rhymeTypeCounts =
  endRhyme :: nat
  internalRhyme :: nat

record summary =
  totalLines :: nat
  totalRhymeCount :: nat
  rhymeTypes :: rhymeTypeCounts

record analysis =
  rhymeGroups :: jsval
  analysisResults :: "finalResult list"
  summary :: summary

section \<open>Input validation\<close>

text \<open>The messages of the three errors that validation throws.\<close>

definition msgNotArray :: jsstring where
  "msgNotArray =
     [0x8F93, 0x5165, 0x5FC5, 0x987B, 0x662F, 0x97F5, 0x811A, 0x7EC4, 0x5E8F, 0x5217, 0x6570, 0x7EC4]"

definition msgBadGroup :: jsstring where
  "msgBadGroup = [0x97F5, 0x811A, 0x7EC4, 0x5E8F, 0x5217, 0x683C, 0x5F0F, 0x65E0, 0x6548]"

definition msgBadCharInfo :: jsstring where
  "msgBadCharInfo =
     [0x97F5, 0x811A, 0x7EC4, 0x5B57, 0x7B26, 0x4FE1, 0x606F, 0x683C, 0x5F0F, 0x65E0, 0x6548]"

text \<open>
  The check of one character entry. On success it gives the typed view of the entry that
  the later stages read.
\<close>

definition validateCharInfo :: "jsval \<Rightarrow> jsError + charInfo" where
  "validateCharInfo v =
     (if notObject v then Inl (Error msgBadCharInfo)
      else case getProp v (ascii ''char'') of
        JStr c \<Rightarrow>
          (case getProp v (ascii ''pinyin'') of
             JStr p \<Rightarrow>
               (case getProp v (ascii ''normalGroup'') of
                  JStr n \<Rightarrow>
                    (case getProp v (ascii ''strictGroup'') of
                       JStr s \<Rightarrow>
                         Inr \<lparr> char = c, pinyin = p, normalGroup = n, strictGroup = s \<rparr>
                     | _ \<Rightarrow> Inl (Error msgBadCharInfo))
                | _ \<Rightarrow> Inl (Error msgBadCharInfo))
           | _ \<Rightarrow> Inl (Error msgBadCharInfo))
      | _ \<Rightarrow> Inl (Error msgBadCharInfo))"

fun validateCharInfos :: "jsval list \<Rightarrow> jsError + charInfo list" where
  "validateCharInfos [] = Inr []"
| "validateCharInfos (v # vs) =
     (case validateCharInfo v of
        Inl e \<Rightarrow> Inl e
      | Inr c \<Rightarrow> (case validateCharInfos vs of Inl e \<Rightarrow> Inl e | Inr cs \<Rightarrow> Inr (c # cs)))"

definition validateGroup :: "jsval \<Rightarrow> jsError + lineGroup" where
  "validateGroup g =
     (if notObject g then Inl (Error msgBadGroup)
      else case getProp g (ascii ''line'') of
        JStr l \<Rightarrow>
          (case getProp g (ascii ''charInfos'') of
             JArr cs \<Rightarrow>
               (case validateCharInfos cs of
                  Inl e \<Rightarrow> Inl e
                | Inr cis \<Rightarrow> Inr \<lparr> line = l, charInfos = cis \<rparr>)
           | _ \<Rightarrow> Inl (Error msgBadGroup))
      | _ \<Rightarrow> Inl (Error msgBadGroup))"

fun validateGroups :: "jsval list \<Rightarrow> jsError + lineGroup list" where
  "validateGroups [] = Inr []"
| "validateGroups (g # gs) =
     (case validateGroup g of
        Inl e \<Rightarrow> Inl e
      | Inr l \<Rightarrow> (case validateGroups gs of Inl e \<Rightarrow> Inl e | Inr ls \<Rightarrow> Inr (l # ls)))"

section \<open>The analysis\<close>

text \<open>
  Everything after validation, on the validated verse. The source declares all its working
  state (the marked set, the candidate and result lists, the counters, the colour map and
  its index) inside the function, so each call starts from the empty state and the model
  is a function of the input and the options alone.
\<close>

definition analyzeVerse :: "jsval \<Rightarrow> lineGroup list \<Rightarrow> options \<Rightarrow> jsError + analysis" where
  "analyzeVerse input rg opts =
     (case allPossibleMatches opts rg of
        Inl e \<Rightarrow> Inl e
      | Inr ms \<Rightarrow>
          (let st = selectMatches ms;
               finalResults = assignColors (committed st) 0 Map.empty 0
           in Inr \<lparr> rhymeGroups = input,
                    analysisResults = finalResults,
                    summary = \<lparr> totalLines = length rg,
                                totalRhymeCount = length finalResults,
                                rhymeTypes = \<lparr> endRhyme = endRhymeCount st,
                                               internalRhyme = internalRhymeCount st \<rparr> \<rparr> \<rparr>))"

definition analyzeRhymePatterns :: "jsval \<Rightarrow> options \<Rightarrow> jsError + analysis" where
  "analyzeRhymePatterns input opts =
     (case input of
        JArr gs \<Rightarrow>
          (if gs = [] then
             Inr \<lparr> rhymeGroups = JArr [],
                   analysisResults = [],
                   summary = \<lparr> totalLines = 0, totalRhymeCount = 0,
                               rhymeTypes = \<lparr> endRhyme = 0, internalRhyme = 0 \<rparr> \<rparr> \<rparr>
           else case validateGroups gs of
                  Inl e \<Rightarrow> Inl e
                | Inr rg \<Rightarrow> analyzeVerse input rg opts)
      | _ \<Rightarrow> Inl (Error msgNotArray))"

section \<open>Vocabulary of the specification\<close>

text \<open>
  The definitions of this section are not code of the analyzer. They name what the
  specification talks about: the character cells of a span, a match and a result, the
  matches the selection loop commits, the shape of a valid input.
\<close>

text \<open>The cells \<open>(lineIndex, i)\<close>, \<open>startIndex \<le> i \<le> endIndex\<close>, of a span.\<close>

definition spanCells :: "span \<Rightarrow> (nat \<times> nat) list" where
  "spanCells sq = map (Pair (lineIndex sq)) [startIndex sq..<Suc (endIndex sq)]"

definition matchCells :: "rhymeMatch \<Rightarrow> (nat \<times> nat) list" where
  "matchCells m = spanCells (seq1 m) @ spanCells (seq2 m)"

text \<open>
  The cells that a position \<open>{line, char, length}\<close> of a result denotes:
  \<open>(line, char + k)\<close> for \<open>k < length\<close>.
\<close>

definition positionCells :: "position \<Rightarrow> (nat \<times> nat) list" where
  "positionCells p = map (\<lambda>k. (pline p, pchar p + k)) [0..<plength p]"

definition resultCells :: "'a rhymeResult_scheme \<Rightarrow> (nat \<times> nat) list" where
  "resultCells r = concat (map positionCells (positions r))"

definition keyOf :: "nat \<times> nat \<Rightarrow> jsstring" where
  "keyOf c = cellKey (fst c) (snd c)"

text \<open>Some cell of the match is already in \<open>markedPositions\<close>.\<close>

definition claimed :: "rhymeMatch \<Rightarrow> jsstring set \<Rightarrow> bool" where
  "claimed m marked = list_ex (\<lambda>c. keyOf c \<in> marked) (matchCells m)"

text \<open>
  The matches that the selection loop commits, in order, when it starts from the marked
  set \<open>marked\<close>. The loop itself keeps only the results built from them
  (lemma \<open>committed_selectMatches\<close> below relates the two).
\<close>

fun chosen :: "rhymeMatch list \<Rightarrow> jsstring set \<Rightarrow> rhymeMatch list" where
  "chosen [] marked = []"
| "chosen (m # ms) marked =
     (if \<not> isSequenceMarked (seq1 m) marked \<and> \<not> isSequenceMarked (seq2 m) marked
      then m # chosen ms (markSequencePositions (seq2 m) (markSequencePositions (seq1 m) marked))
      else chosen ms marked)"

text \<open>What every extracted span satisfies: a non-empty range and its length.\<close>

definition wellFormedSpan :: "span \<Rightarrow> bool" where
  "wellFormedSpan sq = (startIndex sq \<le> endIndex sq \<and> slength sq = endIndex sq - startIndex sq + 1)"

text \<open>
  The gap of the specification: the number of character positions that lie strictly
  between the two spans, which is 0 when they overlap or abut.
\<close>

definition gapBetween :: "span \<Rightarrow> span \<Rightarrow> int" where
  "gapBetween a b =
     int (length (filter (\<lambda>i. (endIndex a < i \<and> i < startIndex b) \<or> (endIndex b < i \<and> i < startIndex a))
                         [0..<max (startIndex a) (startIndex b)]))"

text \<open>The shape of a valid input, in the words of the specification's error taxonomy.\<close>

definition charInfoShaped :: "jsval \<Rightarrow> bool" where
  "charInfoShaped v =
     (isString (getProp v (ascii ''char'')) \<and> isString (getProp v (ascii ''pinyin'')) \<and>
      isString (getProp v (ascii ''normalGroup'')) \<and> isString (getProp v (ascii ''strictGroup'')))"

definition lineShaped :: "jsval \<Rightarrow> bool" where
  "lineShaped g = (isString (getProp g (ascii ''line'')) \<and> isArray (getProp g (ascii ''charInfos'')))"

definition groupValid :: "jsval \<Rightarrow> bool" where
  "groupValid g =
     (lineShaped g \<and>
      (case getProp g (ascii ''charInfos'') of JArr cs \<Rightarrow> list_all charInfoShaped cs | _ \<Rightarrow> False))"

definition verseValid :: "jsval \<Rightarrow> bool" where
  "verseValid input = (case input of JArr gs \<Rightarrow> list_all groupValid gs | _ \<Rightarrow> False)"

text \<open>Projections used to state results on concrete verses.\<close>

definition linesOf :: "jsval \<Rightarrow> lineGroup list" where
  "linesOf v =
     (case v of JArr gs \<Rightarrow> (case validateGroups gs of Inr rg \<Rightarrow> rg | Inl e \<Rightarrow> []) | _ \<Rightarrow> [])"

definition matchesOf :: "options \<Rightarrow> jsval \<Rightarrow> rhymeMatch list" where
  "matchesOf opts v = (case allPossibleMatches opts (linesOf v) of Inr ms \<Rightarrow> ms | Inl e \<Rightarrow> [])"

definition resultsOf :: "jsval \<Rightarrow> options \<Rightarrow> finalResult list" where
  "resultsOf v opts =
     (case analyzeRhymePatterns v opts of Inr a \<Rightarrow> analysisResults a | Inl e \<Rightarrow> [])"

definition spanShape :: "span \<Rightarrow> nat \<times> nat \<times> nat \<times> bool" where
  "spanShape sq = (lineIndex sq, startIndex sq, endIndex sq, isEndOfLine sq)"

definition matchShape :: "rhymeMatch \<Rightarrow> rhymeKind \<times> (nat \<times> nat \<times> nat \<times> bool) \<times> (nat \<times> nat \<times> nat \<times> bool)" where
  "matchShape m = (snd (rhymeType m), spanShape (seq1 m), spanShape (seq2 m))"

definition coords :: "position \<Rightarrow> nat \<times> nat \<times> nat" where
  "coords p = (pline p, pchar p, plength p)"

definition resultShape :: "finalResult \<Rightarrow> rhymeKind \<times> (nat \<times> nat \<times> nat) list" where
  "resultShape r = (snd (r_rhymeType r), map coords (positions r))"

section \<open>Sample verses\<close>

text \<open>
  Inputs as the converter of the repository produces them: one object per line, one
  object per character. In the samples a character is a Latin letter and its
  transcription and both labels are the given rhyme group.
\<close>

definition jsCharInfo :: "jsstring \<Rightarrow> jsstring \<Rightarrow> jsval" where
  "jsCharInfo c g =
     JObj [(ascii ''char'', JStr c), (ascii ''pinyin'', JStr g),
           (ascii ''normalGroup'', JStr g), (ascii ''strictGroup'', JStr g)]"

definition jsLine :: "jsstring \<Rightarrow> jsval list \<Rightarrow> jsval" where
  "jsLine txt cis = JObj [(ascii ''line'', JStr txt), (ascii ''charInfos'', JArr cis)]"

definition sampleChar :: "string \<times> string \<Rightarrow> jsval" where
  "sampleChar cg = jsCharInfo (ascii (fst cg)) (ascii (snd cg))"

definition sampleLine :: "(string \<times> string) list \<Rightarrow> jsval" where
  "sampleLine cs = jsLine (ascii (concat (map fst cs))) (map sampleChar cs)"

text \<open>One line, three characters of group \<open>a\<close> followed by one of group \<open>b\<close>.\<close>

definition verseA :: jsval where
  "verseA = JArr [sampleLine [(''p'', ''a''), (''q'', ''a''), (''r'', ''a''), (''s'', ''b'')]]"

text \<open>Two lines: \<open>a a b\<close> and \<open>a c a\<close>.\<close>

definition verseB :: jsval where
  "verseB = JArr [sampleLine [(''p'', ''a''), (''q'', ''a''), (''r'', ''b'')],
                  sampleLine [(''s'', ''a''), (''t'', ''c''), (''u'', ''a'')]]"

text \<open>Two lines: \<open>a b\<close> and \<open>c a\<close>; the second \<open>a\<close> ends its line, the first does not.\<close>

definition verseC :: jsval where
  "verseC = JArr [sampleLine [(''p'', ''a''), (''q'', ''b'')],
                  sampleLine [(''s'', ''c''), (''t'', ''a'')]]"

text \<open>One line \<open>a x a x y a z\<close>: group \<open>a\<close> at the indices 0, 2 and 5.\<close>

definition verseD :: jsval where
  "verseD = JArr [sampleLine [(''p'', ''a''), (''q'', ''x''), (''r'', ''a''), (''s'', ''x''),
                              (''t'', ''y''), (''u'', ''a''), (''v'', ''z'')]]"

text \<open>
  Three lines that start with group \<open>a\<close>; the first and the third start with the same
  character.
\<close>

definition verseE :: jsval where
  "verseE = JArr [sampleLine [(''p'', ''a''), (''q'', ''b'')],
                  sampleLine [(''s'', ''a''), (''t'', ''c'')],
                  sampleLine [(''p'', ''a''), (''u'', ''d'')]]"

text \<open>One line \<open>a ? a\<close> whose middle character has the unknown label.\<close>

definition verseU :: jsval where
  "verseU = JArr [jsLine (ascii ''pxq'')
                    [jsCharInfo (ascii ''p'') (ascii ''a''), jsCharInfo (ascii ''x'') unknownGroup,
                     jsCharInfo (ascii ''q'') (ascii ''a'')]]"

text \<open>A line without \<open>charInfos\<close>, and a line with a character that has no \<open>pinyin\<close>.\<close>

definition lineWithoutChars :: jsval where
  "lineWithoutChars = JObj [(ascii ''line'', JStr (ascii ''p''))]"

definition lineWithBadChar :: jsval where
  "lineWithBadChar =
     jsLine (ascii ''p'')
       [JObj [(ascii ''char'', JStr (ascii ''p'')), (ascii ''normalGroup'', JStr (ascii ''a'')),
              (ascii ''strictGroup'', JStr (ascii ''a''))]]"

definition withoutEndRhyme :: options where
  "withoutEndRhyme = defaultOptions \<lparr> detectEndRhyme := Some False \<rparr>"

text \<open>Two lines: \<open>a a b\<close> and \<open>c a\<close>.\<close>

definition verseG :: jsval where
  "verseG = JArr [sampleLine [(''p'', ''a''), (''q'', ''a''), (''r'', ''b'')],
                  sampleLine [(''s'', ''c''), (''t'', ''a'')]]"

text \<open>
  A verse of 902 lines: \<open>a a b\<close>, then 900 lines without characters, then the line
  \<open>a\<close>. A line without characters is a valid line. \<open>linesF\<close> is the typed view of
  the verse (lemma \<open>validateGroups_verseF\<close> below).
\<close>

definition emptyLine :: jsval where
  "emptyLine = jsLine [] []"

definition groupsF :: "jsval list" where
  "groupsF = [sampleLine [(''p'', ''a''), (''q'', ''a''), (''r'', ''b'')]] @
             replicate 900 emptyLine @ [sampleLine [(''s'', ''a'')]]"

definition verseF :: jsval where
  "verseF = JArr groupsF"

definition linesF :: "lineGroup list" where
  "linesF = linesOf (JArr [sampleLine [(''p'', ''a''), (''q'', ''a''), (''r'', ''b'')]]) @
            replicate 900 \<lparr> line = [], charInfos = [] \<rparr> @
            linesOf (JArr [sampleLine [(''s'', ''a'')]])"

text \<open>The default options with \<open>interLineLineDiffTolerance\<close> set to 1000.\<close>

definition withWideLineDiff :: options where
  "withWideLineDiff = defaultOptions \<lparr> interLineLineDiffTolerance := Some 1000 \<rparr>"

text \<open>A valid line of one character.\<close>

definition goodLine :: jsval where
  "goodLine = sampleLine [(''p'', ''a'')]"

text \<open>
  The span that the extractor builds for the range \<open>s..e\<close> of line \<open>li\<close> of a sample
  verse (a span without characters where it builds none), and the candidate at a
  position of the sorted candidate list under the default options.
\<close>

definition spanOf :: "jsval \<Rightarrow> nat \<Rightarrow> nat \<Rightarrow> nat \<Rightarrow> span" where
  "spanOf v li s e =
     (case buildSpan li (charInfos (linesOf v ! li)) s e of
        Some sp \<Rightarrow> sp
      | None \<Rightarrow> \<lparr> lineIndex = li, startIndex = s, endIndex = e, slength = 0, sequence = [],
                    sequenceKey = [], chars = [], pinyins = [], isEndOfLine = False,
                    priorityScore = 0 \<rparr>)"

definition matchAt :: "jsval \<Rightarrow> nat \<Rightarrow> rhymeMatch" where
  "matchAt v i = matchesOf defaultOptions v ! i"

section \<open>Auxiliary lemmas\<close>

declare decimal.simps [simp del]

subsection \<open>Decimal rendering and cell keys\<close>

text \<open>
  The key of a cell is injective: a rendered number holds digits only, so the dash splits
  the key in one way, and the decimal rendering is injective.
\<close>

lemma digit_inj: "digit d = digit e \<Longrightarrow> d = e"
  by (simp add: digit_def)

lemma digit_not_dash: "digit d \<noteq> 45"
  by (simp add: digit_def)

lemma decimal_nonempty: "decimal n \<noteq> []"
  by (subst decimal.simps) simp

lemma decimal_digits: "c \<in> set (decimal n) \<Longrightarrow> \<exists>d<10. c = digit d"
proof (induction n rule: decimal.induct)
  case (1 n)
  show ?case
  proof (cases "n < 10")
    case True
    with "1.prems" show ?thesis by (subst (asm) decimal.simps) auto
  next
    case False
    with "1.prems" have "c \<in> set (decimal (n div 10)) \<or> c = digit (n mod 10)"
      by (subst (asm) decimal.simps) auto
    then show ?thesis
    proof
      assume "c \<in> set (decimal (n div 10))"
      with "1.IH" False show ?thesis by simp
    next
      assume "c = digit (n mod 10)"
      then show ?thesis by (intro exI[of _ "n mod 10"]) simp
    qed
  qed
qed

lemma dash_notin_decimal: "45 \<notin> set (decimal n)"
proof
  assume "45 \<in> set (decimal n)"
  then obtain d where "d < 10" and "45 = digit d" using decimal_digits by blast
  then show False using digit_not_dash[of d] by simp
qed

lemma decimal_inj: "decimal n = decimal m \<Longrightarrow> n = m"
proof (induction n arbitrary: m rule: decimal.induct)
  case (1 n)
  show ?case
  proof (cases "n < 10")
    case n: True
    show ?thesis
    proof (cases "m < 10")
      case True
      with n "1.prems" have "digit n = digit m"
        by (simp add: decimal.simps[of n] decimal.simps[of m])
      then show ?thesis by (rule digit_inj)
    next
      case False
      with n "1.prems" have "[digit n] = decimal (m div 10) @ [digit (m mod 10)]"
        by (simp add: decimal.simps[of n] decimal.simps[of m])
      then have "decimal (m div 10) = []" by simp
      then show ?thesis by (simp add: decimal_nonempty)
    qed
  next
    case n: False
    show ?thesis
    proof (cases "m < 10")
      case True
      with n "1.prems" have "decimal (n div 10) @ [digit (n mod 10)] = [digit m]"
        by (simp add: decimal.simps[of n] decimal.simps[of m])
      then have "decimal (n div 10) = []" by simp
      then show ?thesis by (simp add: decimal_nonempty)
    next
      case False
      with n "1.prems" have eq: "decimal (n div 10) @ [digit (n mod 10)] = decimal (m div 10) @ [digit (m mod 10)]"
        by (simp add: decimal.simps[of n] decimal.simps[of m])
      then have a: "decimal (n div 10) = decimal (m div 10)" and b: "digit (n mod 10) = digit (m mod 10)"
        by simp_all
      from "1.IH"[OF n a] have "n div 10 = m div 10" .
      moreover from b have "n mod 10 = m mod 10" by (rule digit_inj)
      ultimately show ?thesis by (metis div_mult_mod_eq)
    qed
  qed
qed

lemma split_at_separator:
  assumes "xs @ c # ys = xs' @ c # ys'" and "c \<notin> set xs" and "c \<notin> set xs'"
  shows "xs = xs' \<and> ys = ys'"
proof -
  have "\<And>x. x \<in> set xs \<Longrightarrow> x \<noteq> c" and "\<And>x. x \<in> set xs' \<Longrightarrow> x \<noteq> c"
    using assms(2,3) by auto
  then have "takeWhile (\<lambda>x. x \<noteq> c) (xs @ c # ys) = xs"
    and "takeWhile (\<lambda>x. x \<noteq> c) (xs' @ c # ys') = xs'"
    by simp_all
  then have "xs = xs'" using assms(1) by simp
  with assms(1) show ?thesis by simp
qed

lemma cellKey_inj: "cellKey l i = cellKey l' i' \<Longrightarrow> l = l' \<and> i = i'"
proof -
  assume "cellKey l i = cellKey l' i'"
  then have "decimal l @ 45 # decimal i = decimal l' @ 45 # decimal i'"
    by (simp add: cellKey_def ascii_def)
  then have "decimal l = decimal l' \<and> decimal i = decimal i'"
    by (rule split_at_separator) (rule dash_notin_decimal)+
  then show ?thesis by (simp add: decimal_inj)
qed

subsection \<open>Span extraction\<close>

text \<open>
  What the extractor returns: exactly the spans that \<open>buildSpan\<close> builds for the
  ranges \<open>s \<le> e\<close> inside a line of the verse.
\<close>

lemma join_empty_sep: "join xs [] = concat xs"
  by (induction xs "[]::jsstring" rule: join.induct) simp_all

lemma scanRange_Some:
  "scanRange cs (rs, chs, ps) = Some (rs', chs', ps') \<Longrightarrow>
     rs' = rs @ map normalGroup cs \<and> chs' = chs @ map char cs \<and> ps' = ps @ map pinyin cs \<and>
     (\<forall>c\<in>set cs. normalGroup c \<noteq> unknownGroup \<and> normalGroup c \<noteq> [])"
proof (induction cs arbitrary: rs chs ps)
  case Nil
  then show ?case by simp
next
  case (Cons c cs)
  from Cons.prems have ok: "normalGroup c \<noteq> unknownGroup" "normalGroup c \<noteq> []"
    and rec: "scanRange cs (rs @ [normalGroup c], chs @ [char c], ps @ [pinyin c]) = Some (rs', chs', ps')"
    by (auto split: if_splits)
  from Cons.IH[OF rec] ok show ?case by simp
qed

lemma scanRange_None:
  "(scanRange cs acc = None) = (\<exists>c\<in>set cs. normalGroup c = unknownGroup \<or> normalGroup c = [])"
  by (induction cs acc rule: scanRange.induct) auto

lemma buildSpan_Some:
  assumes "buildSpan li cis s e = Some sp"
  shows "lineIndex sp = li" and "startIndex sp = s" and "endIndex sp = e"
    and "slength sp = e - s + 1"
    and "sequence sp = map normalGroup (rangeOf cis s e)"
    and "chars sp = map char (rangeOf cis s e)"
    and "pinyins sp = map pinyin (rangeOf cis s e)"
    and "sequenceKey sp = getSequenceKey (sequence sp)"
    and "isEndOfLine sp = (int e = int (length cis) - 1)"
    and "priorityScore sp = (if isEndOfLine sp then 1000 else 0) + int (slength sp) * 10"
    and "\<forall>c\<in>set (rangeOf cis s e). normalGroup c \<noteq> unknownGroup \<and> normalGroup c \<noteq> []"
proof -
  from assms obtain rs chs ps where
    sc: "scanRange (rangeOf cis s e) ([], [], []) = Some (rs, chs, ps)" and
    sp: "sp = \<lparr> lineIndex = li, startIndex = s, endIndex = e, slength = e - s + 1,
                sequence = rs, sequenceKey = getSequenceKey rs, chars = chs, pinyins = ps,
                isEndOfLine = (int e = int (length cis) - 1),
                priorityScore = (if int e = int (length cis) - 1 then 1000 else 0) + int (e - s + 1) * 10 \<rparr>"
    by (auto simp: buildSpan_def Let_def split: option.splits)
  note facts = scanRange_Some[OF sc]
  show "lineIndex sp = li" "startIndex sp = s" "endIndex sp = e" "slength sp = e - s + 1"
    "isEndOfLine sp = (int e = int (length cis) - 1)"
    "priorityScore sp = (if isEndOfLine sp then 1000 else 0) + int (slength sp) * 10"
    by (simp_all add: sp)
  show "sequence sp = map normalGroup (rangeOf cis s e)" "chars sp = map char (rangeOf cis s e)"
    "pinyins sp = map pinyin (rangeOf cis s e)"
    using facts by (simp_all add: sp)
  show "sequenceKey sp = getSequenceKey (sequence sp)" by (simp add: sp)
  show "\<forall>c\<in>set (rangeOf cis s e). normalGroup c \<noteq> unknownGroup \<and> normalGroup c \<noteq> []"
    using facts by simp
qed

lemma buildSpan_None:
  "(buildSpan li cis s e = None) =
     (\<exists>c\<in>set (rangeOf cis s e). normalGroup c = unknownGroup \<or> normalGroup c = [])"
  using scanRange_None[of "rangeOf cis s e" "([], [], [])"]
  by (auto simp: buildSpan_def Let_def split: option.splits)

lemma in_set_map_filter: "x \<in> set (List.map_filter f xs) \<longleftrightarrow> (\<exists>y\<in>set xs. f y = Some x)"
  by (induction xs) (auto simp: map_filter_simps split: option.splits)

lemma in_spansOfLine:
  "sp \<in> set (spansOfLine li cis) \<longleftrightarrow>
     (\<exists>s e. s \<le> e \<and> e < length cis \<and> buildSpan li cis s e = Some sp)"
proof
  assume "sp \<in> set (spansOfLine li cis)"
  then obtain s e where "s < length cis" "s \<le> e" "e < length cis" "buildSpan li cis s e = Some sp"
    by (auto simp: spansOfLine_def in_set_map_filter)
  then show "\<exists>s e. s \<le> e \<and> e < length cis \<and> buildSpan li cis s e = Some sp" by blast
next
  assume "\<exists>s e. s \<le> e \<and> e < length cis \<and> buildSpan li cis s e = Some sp"
  then obtain s e where se: "s \<le> e" "e < length cis" and b: "buildSpan li cis s e = Some sp" by blast
  from se have "s \<in> set [0..<length cis]" and "e \<in> set [s..<length cis]" by simp_all
  then have "e \<in> set [s..<length cis]" by simp
  with b have "sp \<in> set (List.map_filter (\<lambda>e. buildSpan li cis s e) [s..<length cis])"
    unfolding in_set_map_filter by (intro bexI[of _ e])
  moreover from se have "s \<in> set [0..<length cis]" by simp
  ultimately show "sp \<in> set (spansOfLine li cis)"
    unfolding spansOfLine_def set_concat set_map by blast
qed

lemma in_collectSpans:
  "sp \<in> set (collectSpans rg) \<longleftrightarrow>
     (\<exists>li<length rg. sp \<in> set (spansOfLine li (charInfos (rg ! li))))"
proof
  assume "sp \<in> set (collectSpans rg)"
  then obtain p where p: "p \<in> set (enumerate 0 rg)" and sp: "sp \<in> set (spansOfLine (fst p) (charInfos (snd p)))"
    by (auto simp: collectSpans_def)
  from p have "fst p < length rg" and "snd p = rg ! fst p" by (auto simp: in_set_enumerate_eq)
  with sp show "\<exists>li<length rg. sp \<in> set (spansOfLine li (charInfos (rg ! li)))" by auto
next
  assume "\<exists>li<length rg. sp \<in> set (spansOfLine li (charInfos (rg ! li)))"
  then obtain li where li: "li < length rg" and sp: "sp \<in> set (spansOfLine li (charInfos (rg ! li)))" by blast
  from li have "(li, rg ! li) \<in> set (enumerate 0 rg)" by (simp add: in_set_enumerate_eq)
  with sp show "sp \<in> set (collectSpans rg)" by (force simp: collectSpans_def)
qed

lemma set_extractAllRhymeSequences:
  "set (extractAllRhymeSequences rg) = set (collectSpans rg)"
  by (simp add: extractAllRhymeSequences_def)

lemma extracted_span:
  assumes "sp \<in> set (extractAllRhymeSequences rg)"
  shows "lineIndex sp < length rg"
    and "startIndex sp \<le> endIndex sp"
    and "endIndex sp < length (charInfos (rg ! lineIndex sp))"
    and "buildSpan (lineIndex sp) (charInfos (rg ! lineIndex sp)) (startIndex sp) (endIndex sp) = Some sp"
proof -
  from assms obtain li s e where li: "li < length rg" and se: "s \<le> e" "e < length (charInfos (rg ! li))"
    and b: "buildSpan li (charInfos (rg ! li)) s e = Some sp"
    by (auto simp: set_extractAllRhymeSequences in_collectSpans in_spansOfLine)
  from buildSpan_Some(1-3)[OF b] have eqs: "lineIndex sp = li" "startIndex sp = s" "endIndex sp = e" .
  show "lineIndex sp < length rg" "startIndex sp \<le> endIndex sp"
    "endIndex sp < length (charInfos (rg ! lineIndex sp))"
    "buildSpan (lineIndex sp) (charInfos (rg ! lineIndex sp)) (startIndex sp) (endIndex sp) = Some sp"
    using li se b by (simp_all add: eqs)
qed

lemma extracted_by_range:
  assumes "li < length rg" and "s \<le> e" and "e < length (charInfos (rg ! li))"
    and "buildSpan li (charInfos (rg ! li)) s e = Some sp"
  shows "sp \<in> set (extractAllRhymeSequences rg)"
proof -
  from assms(2-4) have "sp \<in> set (spansOfLine li (charInfos (rg ! li)))"
    unfolding in_spansOfLine by blast
  with assms(1) show ?thesis
    unfolding set_extractAllRhymeSequences in_collectSpans by blast
qed

subsection \<open>Match generation\<close>

text \<open>
  What a candidate records of its pair, that generation never throws on the spans of the
  verse, that the loops visit every two different spans in one order or the other, and
  that every candidate pushed for a visited pair is in the sorted list.
\<close>

lemma classifyPair_Some:
  assumes "classifyPair opts rg s1 s2 = Inr (Some m)"
  shows "seq1 m = s1" and "seq2 m = s2" and "m_sequence m = sequence s1"
    and "sequenceLength m = slength s1" and "fst (rhymeType m) = slength s1"
    and "m_sequenceKey m = sequenceKey s1"
    and "sequenceKey s1 = sequenceKey s2"
    and "isWithinFourLines s1 s2 (tolLineDiff opts)"
  using assms
  by (auto simp: classifyPair_def mkMatch_def Let_def split: if_splits sum.splits)

lemma classifyPair_kind:
  assumes "classifyPair opts rg s1 s2 = Inr (Some m)"
  shows "snd (rhymeType m) = EndRhyme \<longleftrightarrow> useEndRhyme opts \<and> (isEndOfLine s1 \<or> isEndOfLine s2)"
    and "snd (rhymeType m) = InterLineRhyme \<longleftrightarrow>
           \<not> (useEndRhyme opts \<and> (isEndOfLine s1 \<or> isEndOfLine s2)) \<and> lineIndex s1 \<noteq> lineIndex s2"
    and "snd (rhymeType m) = InternalRhyme \<longleftrightarrow>
           \<not> (useEndRhyme opts \<and> (isEndOfLine s1 \<or> isEndOfLine s2)) \<and> lineIndex s1 = lineIndex s2"
  using assms
  by (auto simp: classifyPair_def mkMatch_def Let_def split: if_splits sum.splits)

lemma classifyPair_total:
  assumes "lineIndex s1 < length rg" and "lineIndex s2 < length rg"
  shows "\<exists>r. classifyPair opts rg s1 s2 = Inr r"
  using assms by (simp add: classifyPair_def lineLength_def Let_def)

lemma set_pairsFrom: "p \<in> set (pairsFrom xs) \<Longrightarrow> fst p \<in> set xs \<and> snd p \<in> set xs"
  by (induction xs) auto

lemma collectMatches_mem:
  "collectMatches opts rg ps = Inr ms \<Longrightarrow> m \<in> set ms \<Longrightarrow>
     \<exists>p\<in>set ps. classifyPair opts rg (fst p) (snd p) = Inr (Some m)"
proof (induction ps arbitrary: ms)
  case Nil
  then show ?case by simp
next
  case (Cons p ps)
  from Cons.prems(1) obtain r ms' where
    r: "classifyPair opts rg (fst p) (snd p) = Inr r" and
    ms': "collectMatches opts rg ps = Inr ms'" and
    ms: "ms = (case r of None \<Rightarrow> ms' | Some m \<Rightarrow> m # ms')"
    by (auto split: sum.splits)
  show ?case
  proof (cases "m \<in> set ms'")
    case True
    from Cons.IH[OF ms' True] show ?thesis by auto
  next
    case False
    with Cons.prems(2) ms have "r = Some m" by (cases r) auto
    with r show ?thesis by simp
  qed
qed

lemma collectMatches_total:
  "(\<And>p. p \<in> set ps \<Longrightarrow> lineIndex (fst p) < length rg \<and> lineIndex (snd p) < length rg) \<Longrightarrow>
     \<exists>ms. collectMatches opts rg ps = Inr ms"
proof (induction ps)
  case Nil
  then show ?case by simp
next
  case (Cons p ps)
  have "lineIndex (fst p) < length rg" "lineIndex (snd p) < length rg" using Cons.prems by simp_all
  then obtain r where r: "classifyPair opts rg (fst p) (snd p) = Inr r"
    using classifyPair_total by blast
  moreover obtain ms where "collectMatches opts rg ps = Inr ms" using Cons by auto
  ultimately show ?case by simp
qed

lemma allPossibleMatches_total: "\<exists>ms. allPossibleMatches opts rg = Inr ms"
proof -
  have "\<exists>ms. collectMatches opts rg (pairsFrom (extractAllRhymeSequences rg)) = Inr ms"
  proof (rule collectMatches_total)
    fix p assume "p \<in> set (pairsFrom (extractAllRhymeSequences rg))"
    then have "fst p \<in> set (extractAllRhymeSequences rg)" "snd p \<in> set (extractAllRhymeSequences rg)"
      using set_pairsFrom by blast+
    then show "lineIndex (fst p) < length rg \<and> lineIndex (snd p) < length rg"
      using extracted_span(1) by blast
  qed
  then show ?thesis by (auto simp: allPossibleMatches_def)
qed

lemma allPossibleMatches_mem:
  assumes "allPossibleMatches opts rg = Inr ms" and "m \<in> set ms"
  shows "seq1 m \<in> set (extractAllRhymeSequences rg)"
    and "seq2 m \<in> set (extractAllRhymeSequences rg)"
    and "classifyPair opts rg (seq1 m) (seq2 m) = Inr (Some m)"
proof -
  from assms(1) obtain ms0 where
    c: "collectMatches opts rg (pairsFrom (extractAllRhymeSequences rg)) = Inr ms0" and
    ms: "ms = sort_key (\<lambda>m. - priority m) ms0"
    by (auto simp: allPossibleMatches_def split: sum.splits)
  from ms assms(2) have "m \<in> set ms0" by simp
  from collectMatches_mem[OF c this] obtain p where
    p: "p \<in> set (pairsFrom (extractAllRhymeSequences rg))" and
    cl: "classifyPair opts rg (fst p) (snd p) = Inr (Some m)" by blast
  from classifyPair_Some(1,2)[OF cl] have eq: "seq1 m = fst p" "seq2 m = snd p" .
  from set_pairsFrom[OF p] show "seq1 m \<in> set (extractAllRhymeSequences rg)"
    "seq2 m \<in> set (extractAllRhymeSequences rg)" by (simp_all add: eq)
  from cl show "classifyPair opts rg (seq1 m) (seq2 m) = Inr (Some m)" by (simp add: eq)
qed

lemma allPossibleMatches_sorted:
  assumes "allPossibleMatches opts rg = Inr ms"
  shows "sorted (map (\<lambda>m. - priority m) ms)"
  using assms by (auto simp: allPossibleMatches_def split: sum.splits)

lemma extracted_wellFormed:
  "sp \<in> set (extractAllRhymeSequences rg) \<Longrightarrow> wellFormedSpan sp"
  using extracted_span(2)[of sp rg] buildSpan_Some(4)[OF extracted_span(4), of sp rg]
  by (simp add: wellFormedSpan_def)

lemma pairsFrom_nth:
  "i < j \<Longrightarrow> j < length xs \<Longrightarrow> (xs ! i, xs ! j) \<in> set (pairsFrom xs)"
proof (induction xs arbitrary: i j)
  case Nil
  then show ?case by simp
next
  case (Cons x xs)
  show ?case
  proof (cases i)
    case 0
    with Cons.prems obtain k where "j = Suc k" "k < length xs" by (cases j) auto
    with 0 show ?thesis by simp
  next
    case (Suc i')
    with Cons.prems obtain k where j: "j = Suc k" "i' < k" "k < length xs" by (cases j) auto
    from Cons.IH[OF j(2,3)] Suc j(1) show ?thesis by simp
  qed
qed

lemma pairsFrom_members:
  assumes "a \<in> set xs" and "b \<in> set xs" and "a \<noteq> b"
  shows "(a, b) \<in> set (pairsFrom xs) \<or> (b, a) \<in> set (pairsFrom xs)"
proof -
  from assms(1,2) obtain i j where i: "i < length xs" "xs ! i = a" and j: "j < length xs" "xs ! j = b"
    by (auto simp: in_set_conv_nth)
  with assms(3) have "i \<noteq> j" by auto
  then consider "i < j" | "j < i" by linarith
  then show ?thesis
  proof cases
    case 1
    from pairsFrom_nth[OF 1 j(1)] i j show ?thesis by simp
  next
    case 2
    from pairsFrom_nth[OF 2 i(1)] i j show ?thesis by simp
  qed
qed

lemma collectMatches_complete:
  "collectMatches opts rg ps = Inr ms \<Longrightarrow> p \<in> set ps \<Longrightarrow>
     classifyPair opts rg (fst p) (snd p) = Inr (Some m) \<Longrightarrow> m \<in> set ms"
proof (induction ps arbitrary: ms)
  case Nil
  then show ?case by simp
next
  case (Cons q qs)
  from Cons.prems(1) obtain r ms' where
    r: "classifyPair opts rg (fst q) (snd q) = Inr r" and
    ms': "collectMatches opts rg qs = Inr ms'" and
    ms: "ms = (case r of None \<Rightarrow> ms' | Some k \<Rightarrow> k # ms')"
    by (auto split: sum.splits)
  show ?case
  proof (cases "p = q")
    case True
    with Cons.prems(3) r have "r = Some m" by simp
    with ms show ?thesis by simp
  next
    case False
    with Cons.prems(2) have "p \<in> set qs" by simp
    from Cons.IH[OF ms' this Cons.prems(3)] ms show ?thesis by (cases r) simp_all
  qed
qed

lemma allPossibleMatches_complete:
  assumes "allPossibleMatches opts rg = Inr ms"
    and "(s1, s2) \<in> set (pairsFrom (extractAllRhymeSequences rg))"
    and "classifyPair opts rg s1 s2 = Inr (Some m)"
  shows "m \<in> set ms"
proof -
  from assms(1) obtain ms0 where
    c: "collectMatches opts rg (pairsFrom (extractAllRhymeSequences rg)) = Inr ms0" and
    ms: "ms = sort_key (\<lambda>m. - priority m) ms0"
    by (auto simp: allPossibleMatches_def split: sum.splits)
  from collectMatches_complete[OF c assms(2)] assms(3) have "m \<in> set ms0" by simp
  with ms show ?thesis by simp
qed

lemma interline_spans_not_final:
  assumes "classifyPair opts rg s1 s2 = Inr (Some m)" and "snd (rhymeType m) = InterLineRhyme"
    and "useEndRhyme opts"
  shows "\<not> isEndOfLine s1 \<and> \<not> isEndOfLine s2"
  using classifyPair_kind(2)[OF assms(1)] assms(2,3) by blast

subsection \<open>Greedy selection and assembly\<close>

text \<open>
  The marked set is the image of a set of cells under the key, the committed matches
  are pairwise disjoint, and assembly keeps the positions, sequence, type and characters
  of each result.
\<close>

lemma inj_keyOf: "keyOf c = keyOf d \<Longrightarrow> c = d"
  using cellKey_inj[of "fst c" "snd c" "fst d" "snd d"] by (simp add: keyOf_def prod_eq_iff)

lemma isSequenceMarked_iff:
  "isSequenceMarked sq marked \<longleftrightarrow> (\<exists>c\<in>set (spanCells sq). keyOf c \<in> marked)"
  by (auto simp: isSequenceMarked_def spanCells_def keyOf_def list_ex_iff)

lemma fold_insert_keys:
  "fold (\<lambda>i m. insert (f i) m) xs marked = marked \<union> f ` set xs"
  by (induction xs arbitrary: marked) auto

lemma markSequencePositions_eq:
  "markSequencePositions sq marked = marked \<union> keyOf ` set (spanCells sq)"
proof -
  have "keyOf ` set (spanCells sq) =
          (\<lambda>i. cellKey (lineIndex sq) i) ` set [startIndex sq..<Suc (endIndex sq)]"
    by (simp add: spanCells_def keyOf_def image_image del: upt_Suc set_upt)
  then show ?thesis
    by (simp add: markSequencePositions_def fold_insert_keys del: upt_Suc set_upt)
qed

lemma isSequenceMarked_image:
  "isSequenceMarked sq (keyOf ` M) \<longleftrightarrow> set (spanCells sq) \<inter> M \<noteq> {}"
  unfolding isSequenceMarked_iff using inj_keyOf by blast

lemma mark_both_image:
  "markSequencePositions s2 (markSequencePositions s1 (keyOf ` M)) =
     keyOf ` (M \<union> set (spanCells s1) \<union> set (spanCells s2))"
  by (auto simp: markSequencePositions_eq)

lemma chosen_subset: "set (chosen ms marked) \<subseteq> set ms"
  by (induction ms arbitrary: marked) auto

lemma chosen_disjoint:
  "marked = keyOf ` M \<Longrightarrow>
     sorted_wrt (\<lambda>a b. set (matchCells a) \<inter> set (matchCells b) = {}) (chosen ms marked) \<and>
     (\<forall>m\<in>set (chosen ms marked). set (matchCells m) \<inter> M = {})"
proof (induction ms arbitrary: marked M)
  case Nil
  then show ?case by simp
next
  case (Cons m ms)
  show ?case
  proof (cases "\<not> isSequenceMarked (seq1 m) marked \<and> \<not> isSequenceMarked (seq2 m) marked")
    case True
    let ?M' = "M \<union> set (spanCells (seq1 m)) \<union> set (spanCells (seq2 m))"
    let ?marked' = "markSequencePositions (seq2 m) (markSequencePositions (seq1 m) marked)"
    have m': "?marked' = keyOf ` ?M'" using Cons.prems by (simp add: mark_both_image)
    from Cons.IH[OF m'] have
      sw: "sorted_wrt (\<lambda>a b. set (matchCells a) \<inter> set (matchCells b) = {}) (chosen ms ?marked')" and
      dj: "\<forall>k\<in>set (chosen ms ?marked'). set (matchCells k) \<inter> ?M' = {}" by simp_all
    from True Cons.prems have free: "set (matchCells m) \<inter> M = {}"
      by (auto simp: isSequenceMarked_image matchCells_def)
    from dj have "\<forall>k\<in>set (chosen ms ?marked'). set (matchCells m) \<inter> set (matchCells k) = {}"
      by (auto simp: matchCells_def)
    moreover from dj have "\<forall>k\<in>set (chosen ms ?marked'). set (matchCells k) \<inter> M = {}" by blast
    ultimately show ?thesis using True sw free by simp
  next
    case False
    then have "chosen (m # ms) marked = chosen ms marked" by auto
    with Cons.IH[OF Cons.prems] show ?thesis by simp
  qed
qed

lemma selectStep_committed:
  "committed (fold selectStep ms st) = committed st @ map mkResult (chosen ms (markedPositions st))"
proof (induction ms arbitrary: st)
  case Nil
  then show ?case by simp
next
  case (Cons m ms)
  show ?case by (simp add: Cons.IH) (simp add: selectStep_def Let_def)
qed

lemma committed_selectMatches:
  "committed (selectMatches ms) = map mkResult (chosen ms {})"
  by (simp add: selectMatches_def selectStep_committed emptySelection_def)

lemma positionCells_positionOf:
  "wellFormedSpan sq \<Longrightarrow> positionCells (positionOf sq) = spanCells sq"
proof -
  assume wf: "wellFormedSpan sq"
  have "map (\<lambda>k. startIndex sq + k) [0..<slength sq] = [startIndex sq..<Suc (endIndex sq)]"
    using wf map_add_upt[of "startIndex sq" "slength sq"]
    by (simp add: wellFormedSpan_def add.commute)
  then have "map (Pair (lineIndex sq)) (map (\<lambda>k. startIndex sq + k) [0..<slength sq]) = spanCells sq"
    by (simp add: spanCells_def)
  then show ?thesis by (simp add: positionCells_def positionOf_def comp_def)
qed

lemma resultCells_mkResult:
  "wellFormedSpan (seq1 m) \<Longrightarrow> wellFormedSpan (seq2 m) \<Longrightarrow> resultCells (mkResult m) = matchCells m"
  by (simp add: resultCells_def mkResult_def matchCells_def positionCells_positionOf)

lemma assignColors_length: "length (assignColors rs i cm k) = length rs"
  by (induction rs arbitrary: i cm k) (auto simp: Let_def split: option.splits)

lemma assignColors_nth:
  "j < length rs \<Longrightarrow>
     positions (assignColors rs i cm k ! j) = positions (rs ! j) \<and>
     r_sequence (assignColors rs i cm k ! j) = r_sequence (rs ! j) \<and>
     r_rhymeType (assignColors rs i cm k ! j) = r_rhymeType (rs ! j) \<and>
     r_chars (assignColors rs i cm k ! j) = r_chars (rs ! j)"
proof (induction rs arbitrary: i cm k j)
  case Nil
  then show ?case by simp
next
  case (Cons r rs)
  show ?case
  proof (cases j)
    case 0
    then show ?thesis by (simp add: Let_def mkFinal_def split: option.splits)
  next
    case (Suc n)
    with Cons.prems have "n < length rs" by simp
    from Cons.IH[OF this] Suc show ?thesis by (simp add: Let_def split: option.splits)
  qed
qed

lemma analyze_Inr:
  assumes "analyzeRhymePatterns input opts = Inr a"
  shows "(input = JArr [] \<and> analysisResults a = []) \<or>
         (\<exists>gs rg ms. input = JArr gs \<and> gs \<noteq> [] \<and> validateGroups gs = Inr rg \<and>
            allPossibleMatches opts rg = Inr ms \<and>
            analysisResults a = assignColors (map mkResult (chosen ms {})) 0 Map.empty 0)"
proof (cases input)
  case (JArr gs)
  show ?thesis
  proof (cases "gs = []")
    case True
    with assms JArr show ?thesis by (auto simp: analyzeRhymePatterns_def)
  next
    case False
    with assms JArr obtain rg where v: "validateGroups gs = Inr rg"
      and av: "analyzeVerse input rg opts = Inr a"
      by (auto simp: analyzeRhymePatterns_def split: sum.splits)
    from av obtain ms where ms: "allPossibleMatches opts rg = Inr ms"
      and a: "analysisResults a = assignColors (committed (selectMatches ms)) 0 Map.empty 0"
      by (auto simp: analyzeVerse_def Let_def split: sum.splits)
    with JArr False v show ?thesis by (auto simp: committed_selectMatches)
  qed
qed (use assms in \<open>simp_all add: analyzeRhymePatterns_def\<close>)

lemma extracted_sequence:
  assumes "sp \<in> set (extractAllRhymeSequences rg)"
  shows "sequence sp = map normalGroup (rangeOf (charInfos (rg ! lineIndex sp)) (startIndex sp) (endIndex sp))"
    and "unknownGroup \<notin> set (sequence sp)" and "[] \<notin> set (sequence sp)"
proof -
  note b = extracted_span(4)[OF assms]
  show s: "sequence sp = map normalGroup (rangeOf (charInfos (rg ! lineIndex sp)) (startIndex sp) (endIndex sp))"
    by (rule buildSpan_Some(5)[OF b])
  from buildSpan_Some(11)[OF b] show "unknownGroup \<notin> set (sequence sp)" "[] \<notin> set (sequence sp)"
    unfolding s by auto
qed

lemma result_from_match:
  assumes "analyzeRhymePatterns input opts = Inr a" and "r \<in> set (analysisResults a)"
  shows "\<exists>gs rg ms m. input = JArr gs \<and> validateGroups gs = Inr rg \<and>
           allPossibleMatches opts rg = Inr ms \<and> m \<in> set (chosen ms {}) \<and>
           positions r = positions (mkResult m) \<and> r_sequence r = r_sequence (mkResult m) \<and>
           r_rhymeType r = r_rhymeType (mkResult m) \<and> r_chars r = r_chars (mkResult m)"
proof -
  from analyze_Inr[OF assms(1)] assms(2) obtain gs rg ms where
    i: "input = JArr gs" and v: "validateGroups gs = Inr rg" and
    ms: "allPossibleMatches opts rg = Inr ms" and
    a: "analysisResults a = assignColors (map mkResult (chosen ms {})) 0 Map.empty 0"
    by auto
  from assms(2) obtain j where j: "j < length (analysisResults a)" and r: "r = analysisResults a ! j"
    by (auto simp: in_set_conv_nth)
  from j a have j': "j < length (chosen ms {})" by (simp add: assignColors_length)
  then have j'': "j < length (map mkResult (chosen ms {}))" by simp
  have "chosen ms {} ! j \<in> set (chosen ms {})" using j' by simp
  moreover from assignColors_nth[OF j'', of 0 Map.empty 0] j'
  have "positions r = positions (mkResult (chosen ms {} ! j)) \<and>
        r_sequence r = r_sequence (mkResult (chosen ms {} ! j)) \<and>
        r_rhymeType r = r_rhymeType (mkResult (chosen ms {} ! j)) \<and>
        r_chars r = r_chars (mkResult (chosen ms {} ! j))"
    by (simp add: r a)
  ultimately show ?thesis using i v ms by blast
qed

lemma claimed_iff:
  "claimed m marked \<longleftrightarrow> isSequenceMarked (seq1 m) marked \<or> isSequenceMarked (seq2 m) marked"
  by (auto simp: claimed_def list_ex_iff matchCells_def isSequenceMarked_iff)

subsection \<open>Classification rules\<close>

text \<open>
  The inter-line rule on the characters of the pair, the gap of the specification
  against the interval of the code, and the priority that each rule gives.
\<close>

lemma classifyPair_interline_chars:
  assumes "classifyPair opts rg s1 s2 = Inr (Some m)" and "snd (rhymeType m) = InterLineRhyme"
  shows "join (chars s1) [] \<noteq> join (chars s2) []"
  using assms
  by (auto simp: classifyPair_def mkMatch_def Let_def split: if_splits sum.splits)

lemma classifyPair_skip_repeat:
  assumes "lineIndex s1 \<noteq> lineIndex s2" and "chars s1 = chars s2" and "useInterLineRhyme opts"
    and "\<not> (useEndRhyme opts \<and> (isEndOfLine s1 \<or> isEndOfLine s2))"
  shows "classifyPair opts rg s1 s2 = Inr None"
proof -
  from assms(4) have ne: "(useEndRhyme opts \<and> (isEndOfLine s1 \<or> isEndOfLine s2)) = False" by blast
  show ?thesis using assms(1-3) by (simp add: classifyPair_def ne)
qed

lemma count_between:
  "length (filter (\<lambda>i. a < i \<and> i < b) [0..<n]) = (if b \<le> n then b - a - 1 else n - a - 1)"
  by (induction n) auto

lemma gapBetween_eq:
  assumes "wellFormedSpan a" and "wellFormedSpan b"
  shows "gapBetween a b = spanInterval a b"
proof -
  from assms have wa: "startIndex a \<le> endIndex a" and wb: "startIndex b \<le> endIndex b"
    by (simp_all add: wellFormedSpan_def)
  consider (ab) "endIndex a < startIndex b" | (ba) "endIndex b < startIndex a"
    | (ov) "\<not> endIndex a < startIndex b" "\<not> endIndex b < startIndex a" by blast
  then show ?thesis
  proof cases
    case ab
    with wa wb have "(\<lambda>i. (endIndex a < i \<and> i < startIndex b) \<or> (endIndex b < i \<and> i < startIndex a))
                 = (\<lambda>i. endIndex a < i \<and> i < startIndex b)" by (intro ext) auto
    moreover from ab wa have "max (startIndex a) (startIndex b) = startIndex b" by simp
    ultimately show ?thesis using ab by (simp add: gapBetween_def spanInterval_def count_between)
  next
    case ba
    with wa wb have "(\<lambda>i. (endIndex a < i \<and> i < startIndex b) \<or> (endIndex b < i \<and> i < startIndex a))
                 = (\<lambda>i. endIndex b < i \<and> i < startIndex a)" by (intro ext) auto
    moreover from ba wb have "max (startIndex a) (startIndex b) = startIndex a" by simp
    ultimately show ?thesis using ba wa wb by (simp add: gapBetween_def spanInterval_def count_between)
  next
    case ov
    with wa wb have "(\<lambda>i. (endIndex a < i \<and> i < startIndex b) \<or> (endIndex b < i \<and> i < startIndex a))
                 = (\<lambda>i. False)" by (intro ext) auto
    then show ?thesis using ov by (simp add: gapBetween_def spanInterval_def)
  qed
qed

lemma gapBetween_sym: "gapBetween a b = gapBetween b a"
proof -
  have "(\<lambda>i. (endIndex a < i \<and> i < startIndex b) \<or> (endIndex b < i \<and> i < startIndex a)) =
        (\<lambda>i. (endIndex b < i \<and> i < startIndex a) \<or> (endIndex a < i \<and> i < startIndex b))"
    by (intro ext) blast
  then show ?thesis by (simp add: gapBetween_def max.commute)
qed

lemma classifyPair_internal_boundary:
  assumes "wellFormedSpan s1" and "wellFormedSpan s2"
    and "lineIndex s1 = lineIndex s2" and "sequenceKey s1 = sequenceKey s2"
    and "0 \<le> tolLineDiff opts"
    and "useInternalRhyme opts"
    and "\<not> (useEndRhyme opts \<and> (isEndOfLine s1 \<or> isEndOfLine s2))"
  shows "classifyPair opts rg s1 s2 =
           (if gapBetween s1 s2 \<le> int (min (slength s1) (slength s2)) + tolInternal opts
            then Inr (Some (mkMatch s1 s2 InternalRhyme (gapBetween s1 s2) (100 - gapBetween s1 s2)))
            else Inr None)"
proof -
  have g: "gapBetween s1 s2 = spanInterval s1 s2" by (rule gapBetween_eq[OF assms(1,2)])
  have gate: "isWithinFourLines s1 s2 (tolLineDiff opts)"
    using assms(3,5) by (simp add: isWithinFourLines_def)
  from assms(7) have ne: "(useEndRhyme opts \<and> (isEndOfLine s1 \<or> isEndOfLine s2)) = False" by blast
  show ?thesis unfolding g using assms(3,4,6) gate
    by (simp add: classifyPair_def isInternalRhymeValid_def Let_def ne)
qed

lemma spanInterval_nonneg: "0 \<le> spanInterval s1 s2"
  by (simp add: spanInterval_def)

lemma classifyPair_end_priority:
  assumes "classifyPair opts rg s1 s2 = Inr (Some m)" and "snd (rhymeType m) = EndRhyme"
  shows "priority m = 1000 - interval m + int (sequenceLength m) * 10"
    and "0 \<le> interval m" and "interval m \<le> tolLineDiff opts"
  using assms
  by (auto simp: classifyPair_def mkMatch_def isWithinFourLines_def Let_def
           split: if_splits sum.splits)

lemma classifyPair_internal_priority:
  assumes "classifyPair opts rg s1 s2 = Inr (Some m)" and "snd (rhymeType m) = InternalRhyme"
  shows "priority m = 100 - interval m + int (sequenceLength m) * 10"
    and "0 \<le> interval m"
  using assms spanInterval_nonneg[of s1 s2]
  by (auto simp: classifyPair_def mkMatch_def Let_def split: if_splits sum.splits)

subsection \<open>Validation\<close>

text \<open>
  The validation functions against the shape predicates.
\<close>

lemma isString_iff: "isString v \<longleftrightarrow> (\<exists>s. v = JStr s)"
  by (cases v) simp_all

lemma isArray_iff: "isArray v \<longleftrightarrow> (\<exists>vs. v = JArr vs)"
  by (cases v) simp_all

lemma getProp_notObject: "notObject v \<Longrightarrow> getProp v k = JUndefined"
  by (cases v) simp_all

lemma validateCharInfo_shaped:
  "charInfoShaped v \<Longrightarrow> \<exists>c. validateCharInfo v = Inr c"
proof -
  assume sh: "charInfoShaped v"
  then obtain c p n s where
    g: "getProp v (ascii ''char'') = JStr c" "getProp v (ascii ''pinyin'') = JStr p"
       "getProp v (ascii ''normalGroup'') = JStr n" "getProp v (ascii ''strictGroup'') = JStr s"
    unfolding charInfoShaped_def isString_iff by blast
  have "\<not> notObject v" using g(1) getProp_notObject[of v] by auto
  then show ?thesis unfolding validateCharInfo_def by (simp add: g)
qed

lemma validateCharInfo_unshaped:
  "\<not> charInfoShaped v \<Longrightarrow> validateCharInfo v = Inl (Error msgBadCharInfo)"
  unfolding validateCharInfo_def charInfoShaped_def isString_iff
  by (auto split: jsval.splits)

lemma validateCharInfos_valid:
  "list_all charInfoShaped vs \<Longrightarrow> \<exists>cs. validateCharInfos vs = Inr cs"
proof (induction vs)
  case Nil
  then show ?case by simp
next
  case (Cons v vs)
  then obtain c cs where "validateCharInfo v = Inr c" "validateCharInfos vs = Inr cs"
    using validateCharInfo_shaped by fastforce
  then show ?case by simp
qed

lemma validateCharInfos_invalid:
  "\<not> list_all charInfoShaped vs \<Longrightarrow> validateCharInfos vs = Inl (Error msgBadCharInfo)"
proof (induction vs)
  case Nil
  then show ?case by simp
next
  case (Cons v vs)
  show ?case
  proof (cases "charInfoShaped v")
    case True
    with Cons have "validateCharInfos vs = Inl (Error msgBadCharInfo)" by simp
    moreover from True obtain c where "validateCharInfo v = Inr c"
      using validateCharInfo_shaped by blast
    ultimately show ?thesis by simp
  next
    case False
    then show ?thesis by (simp add: validateCharInfo_unshaped)
  qed
qed

lemma validateGroup_unshaped:
  "\<not> lineShaped g \<Longrightarrow> validateGroup g = Inl (Error msgBadGroup)"
  unfolding validateGroup_def lineShaped_def isString_iff isArray_iff
  by (auto split: jsval.splits)

lemma validateGroup_badChar:
  assumes "lineShaped g" and "\<not> groupValid g"
  shows "validateGroup g = Inl (Error msgBadCharInfo)"
proof -
  from assms(1) obtain l cs where
    g: "getProp g (ascii ''line'') = JStr l" "getProp g (ascii ''charInfos'') = JArr cs"
    unfolding lineShaped_def isString_iff isArray_iff by blast
  have no: "\<not> notObject g" using g(1) getProp_notObject[of g] by auto
  from assms g have "\<not> list_all charInfoShaped cs" by (simp add: groupValid_def)
  then have "validateCharInfos cs = Inl (Error msgBadCharInfo)" by (rule validateCharInfos_invalid)
  with no show ?thesis unfolding validateGroup_def by (simp add: g)
qed

lemma validateGroup_valid:
  assumes "groupValid g"
  shows "\<exists>l. validateGroup g = Inr l"
proof -
  from assms have sh: "lineShaped g" by (simp add: groupValid_def)
  then obtain l cs where
    g: "getProp g (ascii ''line'') = JStr l" "getProp g (ascii ''charInfos'') = JArr cs"
    unfolding lineShaped_def isString_iff isArray_iff by blast
  have no: "\<not> notObject g" using g(1) getProp_notObject[of g] by auto
  from assms g have "list_all charInfoShaped cs" by (simp add: groupValid_def)
  then obtain cis where "validateCharInfos cs = Inr cis" using validateCharInfos_valid by blast
  with no show ?thesis unfolding validateGroup_def by (simp add: g)
qed

lemma validateGroups_valid:
  "list_all groupValid gs \<Longrightarrow> \<exists>rg. validateGroups gs = Inr rg"
proof (induction gs)
  case Nil
  then show ?case by simp
next
  case (Cons g gs)
  then obtain l rg where "validateGroup g = Inr l" "validateGroups gs = Inr rg"
    using validateGroup_valid by fastforce
  then show ?case by simp
qed

lemma validateGroups_first_bad:
  "list_all groupValid pre \<Longrightarrow> validateGroup g = Inl e \<Longrightarrow>
     validateGroups (pre @ g # post) = Inl e"
proof (induction pre)
  case Nil
  then show ?case by simp
next
  case (Cons p pre)
  then obtain l where "validateGroup p = Inr l" using validateGroup_valid by fastforce
  with Cons show ?case by simp
qed

lemma validateGroups_Inr_valid:
  "validateGroups gs = Inr rg \<Longrightarrow> list_all groupValid gs"
proof (induction gs arbitrary: rg)
  case Nil
  then show ?case by simp
next
  case (Cons g gs)
  from Cons.prems obtain l rg' where l: "validateGroup g = Inr l" and r: "validateGroups gs = Inr rg'"
    by (auto split: sum.splits)
  have "groupValid g"
  proof (rule ccontr)
    assume n: "\<not> groupValid g"
    show False
    proof (cases "lineShaped g")
      case True
      from validateGroup_badChar[OF True n] l show False by simp
    next
      case False
      from validateGroup_unshaped[OF False] l show False by simp
    qed
  qed
  with Cons.IH[OF r] show ?case by simp
qed

lemma analyzeVerse_total: "\<exists>a. analyzeVerse input rg opts = Inr a"
proof -
  obtain ms where "allPossibleMatches opts rg = Inr ms" using allPossibleMatches_total by blast
  then show ?thesis by (simp add: analyzeVerse_def Let_def)
qed

lemma analyze_valid_iff:
  "(\<exists>a. analyzeRhymePatterns input opts = Inr a) \<longleftrightarrow> verseValid input"
proof
  assume "\<exists>a. analyzeRhymePatterns input opts = Inr a"
  then obtain a where a: "analyzeRhymePatterns input opts = Inr a" ..
  from analyze_Inr[OF a] show "verseValid input"
    by (auto simp: verseValid_def dest: validateGroups_Inr_valid)
next
  assume "verseValid input"
  then obtain gs where i: "input = JArr gs" and v: "list_all groupValid gs"
    by (auto simp: verseValid_def split: jsval.splits)
  from validateGroups_valid[OF v] obtain rg where rg: "validateGroups gs = Inr rg" ..
  obtain a where "analyzeVerse input rg opts = Inr a" using analyzeVerse_total by blast
  with i rg show "\<exists>a. analyzeRhymePatterns input opts = Inr a"
    by (cases "gs = []") (simp_all add: analyzeRhymePatterns_def)
qed

lemma analyze_first_bad:
  assumes "list_all groupValid pre" and "validateGroup g = Inl e"
  shows "analyzeRhymePatterns (JArr (pre @ g # post)) opts = Inl e"
  using validateGroups_first_bad[OF assms] by (simp add: analyzeRhymePatterns_def)

subsection \<open>Order of commitment\<close>

text \<open>
  A candidate that is not committed was blocked by a committed candidate that precedes
  it in the sorted list.
\<close>

lemma chosen_blocked:
  "marked = keyOf ` M \<Longrightarrow> m \<in> set ms \<Longrightarrow> m \<notin> set (chosen ms marked) \<Longrightarrow>
     set (matchCells m) \<inter> M \<noteq> {} \<or>
     (\<exists>pre post K. ms = pre @ m # post \<and> K \<in> set pre \<and> K \<in> set (chosen ms marked) \<and>
        set (matchCells K) \<inter> set (matchCells m) \<noteq> {})"
proof (induction ms arbitrary: marked M)
  case Nil
  then show ?case by simp
next
  case (Cons x xs)
  let ?free = "\<not> isSequenceMarked (seq1 x) marked \<and> \<not> isSequenceMarked (seq2 x) marked"
  let ?M' = "M \<union> set (spanCells (seq1 x)) \<union> set (spanCells (seq2 x))"
  let ?marked' = "markSequencePositions (seq2 x) (markSequencePositions (seq1 x) marked)"
  have m': "?marked' = keyOf ` ?M'" using Cons.prems(1) by (simp add: mark_both_image)
  show ?case
  proof (cases "m = x")
    case True
    with Cons.prems(3) have "\<not> ?free" by (auto split: if_splits)
    with True Cons.prems(1) have "set (matchCells m) \<inter> M \<noteq> {}"
      by (auto simp: isSequenceMarked_image matchCells_def)
    then show ?thesis by simp
  next
    case False
    with Cons.prems(2) have mxs: "m \<in> set xs" by simp
    show ?thesis
    proof (cases ?free)
      case free: True
      then have ch: "chosen (x # xs) marked = x # chosen xs ?marked'" by simp
      with Cons.prems(3) have "m \<notin> set (chosen xs ?marked')" by simp
      from Cons.IH[OF m' mxs this]
      consider (a) "set (matchCells m) \<inter> M \<noteq> {}"
        | (b) "set (matchCells m) \<inter> set (matchCells x) \<noteq> {}"
        | (c) "\<exists>pre post K. xs = pre @ m # post \<and> K \<in> set pre \<and> K \<in> set (chosen xs ?marked') \<and>
                 set (matchCells K) \<inter> set (matchCells m) \<noteq> {}"
        by (auto simp: matchCells_def)
      then show ?thesis
      proof cases
        case a
        then show ?thesis by simp
      next
        case b
        from mxs obtain pre post where "xs = pre @ m # post" by (meson split_list)
        then have "x # xs = (x # pre) @ m # post" by simp
        moreover have "x \<in> set (x # pre)" by simp
        moreover have "x \<in> set (chosen (x # xs) marked)" using ch by simp
        moreover from b have "set (matchCells x) \<inter> set (matchCells m) \<noteq> {}" by blast
        ultimately show ?thesis by blast
      next
        case c
        then obtain pre post K where "xs = pre @ m # post" "K \<in> set pre"
          "K \<in> set (chosen xs ?marked')" "set (matchCells K) \<inter> set (matchCells m) \<noteq> {}" by blast
        then have "x # xs = (x # pre) @ m # post" "K \<in> set (x # pre)"
          "K \<in> set (chosen (x # xs) marked)" using ch by simp_all
        with \<open>set (matchCells K) \<inter> set (matchCells m) \<noteq> {}\<close> show ?thesis by blast
      qed
    next
      case False
      then have ch: "chosen (x # xs) marked = chosen xs marked" by auto
      with Cons.prems(3) have "m \<notin> set (chosen xs marked)" by simp
      from Cons.IH[OF Cons.prems(1) mxs this]
      consider (a) "set (matchCells m) \<inter> M \<noteq> {}"
        | (c) "\<exists>pre post K. xs = pre @ m # post \<and> K \<in> set pre \<and> K \<in> set (chosen xs marked) \<and>
                 set (matchCells K) \<inter> set (matchCells m) \<noteq> {}" by blast
      then show ?thesis
      proof cases
        case a
        then show ?thesis by simp
      next
        case c
        then obtain pre post K where "xs = pre @ m # post" "K \<in> set pre"
          "K \<in> set (chosen xs marked)" "set (matchCells K) \<inter> set (matchCells m) \<noteq> {}" by blast
        then have "x # xs = (x # pre) @ m # post" "K \<in> set (x # pre)"
          "K \<in> set (chosen (x # xs) marked)" using ch by simp_all
        with \<open>set (matchCells K) \<inter> set (matchCells m) \<noteq> {}\<close> show ?thesis by blast
      qed
    qed
  qed
qed

lemma sorted_wrt_distinct_members:
  assumes "sorted_wrt P xs" and "a \<in> set xs" and "b \<in> set xs" and "a \<noteq> b"
  shows "P a b \<or> P b a"
proof -
  from assms(2,3) obtain i j where i: "i < length xs" "xs ! i = a" and j: "j < length xs" "xs ! j = b"
    by (auto simp: in_set_conv_nth)
  with assms(4) have "i \<noteq> j" by auto
  then consider "i < j" | "j < i" by linarith
  then show ?thesis
  proof cases
    case 1
    with assms(1) i j show ?thesis by (auto simp: sorted_wrt_iff_nth_less)
  next
    case 2
    with assms(1) i j show ?thesis by (auto simp: sorted_wrt_iff_nth_less)
  qed
qed

lemma chosen_not_both:
  assumes "a \<in> set (chosen ms {})" and "b \<in> set (chosen ms {})" and "a \<noteq> b"
  shows "set (matchCells a) \<inter> set (matchCells b) = {}"
proof -
  have "{} = keyOf ` {}" by simp
  from chosen_disjoint[OF this, of ms]
  have "sorted_wrt (\<lambda>a b. set (matchCells a) \<inter> set (matchCells b) = {}) (chosen ms {})" by simp
  from sorted_wrt_distinct_members[OF this assms] show ?thesis by blast
qed

lemma blocked_by_earlier:
  assumes "sorted (map (\<lambda>m. - priority m) ms)" and "m \<in> set ms" and "m \<notin> set (chosen ms {})"
  shows "\<exists>K\<in>set (chosen ms {}). priority m \<le> priority K \<and>
           set (matchCells K) \<inter> set (matchCells m) \<noteq> {}"
proof -
  have "{} = keyOf ` {}" by simp
  from chosen_blocked[OF this assms(2,3)] obtain pre post K where
    ms: "ms = pre @ m # post" and K: "K \<in> set pre" "K \<in> set (chosen ms {})"
    "set (matchCells K) \<inter> set (matchCells m) \<noteq> {}" by auto
  from assms(1) K(1) have "- priority K \<le> - priority m"
    unfolding ms by (auto simp: sorted_append)
  with K show ?thesis by auto
qed

subsection \<open>Projections\<close>

lemma allPossibleMatches_matchesOf:
  "allPossibleMatches opts (linesOf v) = Inr (matchesOf opts v)"
proof -
  obtain ms where "allPossibleMatches opts (linesOf v) = Inr ms"
    using allPossibleMatches_total by blast
  then show ?thesis by (simp add: matchesOf_def)
qed

lemma analyze_resultsOf:
  "\<not> isl (analyzeRhymePatterns v opts) \<Longrightarrow>
     analyzeRhymePatterns v opts = Inr (projr (analyzeRhymePatterns v opts)) \<and>
     analysisResults (projr (analyzeRhymePatterns v opts)) = resultsOf v opts"
  by (cases "analyzeRhymePatterns v opts") (simp_all add: resultsOf_def)

text \<open>
  Validation of the long sample verse, by the lemmas on lists of lines instead of line by
  line.
\<close>

lemma validateGroups_append:
  "validateGroups xs = Inr a \<Longrightarrow> validateGroups ys = Inr b \<Longrightarrow> validateGroups (xs @ ys) = Inr (a @ b)"
  by (induction xs arbitrary: a) (auto split: sum.splits)

lemma validateGroups_replicate:
  "validateGroup g = Inr l \<Longrightarrow> validateGroups (replicate n g) = Inr (replicate n l)"
  by (induction n) simp_all

lemma validateGroups_verseF: "validateGroups groupsF = Inr linesF"
proof -
  have a: "validateGroups [sampleLine [(''p'', ''a''), (''q'', ''a''), (''r'', ''b'')]] =
             Inr (linesOf (JArr [sampleLine [(''p'', ''a''), (''q'', ''a''), (''r'', ''b'')]]))"
    by code_simp
  have b: "validateGroups [sampleLine [(''s'', ''a'')]] = Inr (linesOf (JArr [sampleLine [(''s'', ''a'')]]))"
    by code_simp
  have e: "validateGroup emptyLine = Inr \<lparr> line = [], charInfos = [] \<rparr>" by code_simp
  note r = validateGroups_replicate[OF e, of 900]
  from validateGroups_append[OF a validateGroups_append[OF r b]]
  show ?thesis unfolding groupsF_def linesF_def .
qed

lemma groupsF_nonempty: "groupsF \<noteq> []"
  by (simp add: groupsF_def)

lemma linesOf_verseF: "linesOf verseF = linesF"
  by (simp add: linesOf_def verseF_def validateGroups_verseF)

lemma analyze_verseF: "analyzeRhymePatterns verseF opts = analyzeVerse verseF linesF opts"
  by (simp add: analyzeRhymePatterns_def verseF_def validateGroups_verseF groupsF_nonempty)

section \<open>The claims\<close>

text \<open>
  Claim C1, evaluated where the code departs from it. With \<open>detectEndRhyme\<close> set to
  false, the verse \<open>verseC\<close> has one candidate: the end-of-line span of line 1 paired
  with a span of line 0. It is classified as inter-line rhyme, and committed as such,
  although the helper \<open>isNonEndInterLineRhyme\<close> rejects the pair.
\<close>

theorem interline_with_end_of_line_span:
  "allPossibleMatches withoutEndRhyme (linesOf verseC) = Inr (matchesOf withoutEndRhyme verseC) \<and>
   map matchShape (matchesOf withoutEndRhyme verseC) =
     [(InterLineRhyme, (1, 1, 1, True), (0, 0, 0, False))] \<and>
   sequenceKey (seq1 (hd (matchesOf withoutEndRhyme verseC))) =
     sequenceKey (seq2 (hd (matchesOf withoutEndRhyme verseC))) \<and>
   \<not> isNonEndInterLineRhyme (seq1 (hd (matchesOf withoutEndRhyme verseC)))
        (seq2 (hd (matchesOf withoutEndRhyme verseC))) 2 \<and>
   \<not> isl (analyzeRhymePatterns verseC withoutEndRhyme) \<and>
   map resultShape (resultsOf verseC withoutEndRhyme) =
     [(InterLineRhyme, [(1, 1, 1), (0, 0, 1)])]"
proof -
  have "map matchShape (matchesOf withoutEndRhyme verseC) =
          [(InterLineRhyme, (1, 1, 1, True), (0, 0, 0, False))]"
    by code_simp
  moreover have "sequenceKey (seq1 (hd (matchesOf withoutEndRhyme verseC))) =
                 sequenceKey (seq2 (hd (matchesOf withoutEndRhyme verseC)))"
    by code_simp
  moreover have "\<not> isNonEndInterLineRhyme (seq1 (hd (matchesOf withoutEndRhyme verseC)))
                    (seq2 (hd (matchesOf withoutEndRhyme verseC))) 2"
    by code_simp
  moreover have "\<not> isl (analyzeRhymePatterns verseC withoutEndRhyme)"
    by code_simp
  moreover have "map resultShape (resultsOf verseC withoutEndRhyme) =
                   [(InterLineRhyme, [(1, 1, 1), (0, 0, 1)])]"
    by code_simp
  ultimately show ?thesis using allPossibleMatches_matchesOf by blast
qed

text \<open>
  Claim C2. In the returned \<open>analysisResults\<close>, two different results never cover a
  common character cell. The selection loop commits a match only when none of the cells
  of its two spans is claimed, and on commit it claims all of them.
\<close>

theorem no_overlap_between_results:
  assumes "analyzeRhymePatterns input opts = Inr a"
    and "i < j" and "j < length (analysisResults a)"
  shows "set (resultCells (analysisResults a ! i)) \<inter> set (resultCells (analysisResults a ! j)) = {} \<and>
         committed (selectStep m st) =
           (if claimed m (markedPositions st) then committed st else committed st @ [mkResult m]) \<and>
         markedPositions (selectStep m st) =
           (if claimed m (markedPositions st) then markedPositions st
            else markedPositions st \<union> keyOf ` set (matchCells m))"
proof (intro conjI)
  from analyze_Inr[OF assms(1)] assms(3) obtain gs rg ms where
    ms: "allPossibleMatches opts rg = Inr ms" and
    a: "analysisResults a = assignColors (map mkResult (chosen ms {})) 0 Map.empty 0"
    by auto
  let ?ch = "chosen ms {}"
  from assms(3) a have j: "j < length ?ch" by (simp add: assignColors_length)
  with assms(2) have i: "i < length ?ch" by simp
  have wf: "wellFormedSpan (seq1 k) \<and> wellFormedSpan (seq2 k)" if "k \<in> set ?ch" for k
  proof -
    from that chosen_subset have "k \<in> set ms" by blast
    from allPossibleMatches_mem(1,2)[OF ms this] show ?thesis
      by (simp add: extracted_wellFormed)
  qed
  have cells: "resultCells (analysisResults a ! n) = matchCells (?ch ! n)" if "n < length ?ch" for n
  proof -
    from that have "positions (analysisResults a ! n) = positions (mkResult (?ch ! n))"
      using assignColors_nth[of n "map mkResult ?ch" 0 Map.empty 0] by (simp add: a)
    then have "resultCells (analysisResults a ! n) = resultCells (mkResult (?ch ! n))"
      by (simp add: resultCells_def)
    also have "\<dots> = matchCells (?ch ! n)"
      using wf[of "?ch ! n"] that by (simp add: resultCells_mkResult)
    finally show ?thesis .
  qed
  have "{} = keyOf ` {}" by simp
  from chosen_disjoint[OF this, of ms]
  have "sorted_wrt (\<lambda>a b. set (matchCells a) \<inter> set (matchCells b) = {}) ?ch" by simp
  with assms(2) j have "set (matchCells (?ch ! i)) \<inter> set (matchCells (?ch ! j)) = {}"
    by (simp add: sorted_wrt_iff_nth_less)
  then show "set (resultCells (analysisResults a ! i)) \<inter> set (resultCells (analysisResults a ! j)) = {}"
    by (simp add: cells i j)
next
  show "committed (selectStep m st) =
          (if claimed m (markedPositions st) then committed st else committed st @ [mkResult m])"
    by (simp add: selectStep_def claimed_iff Let_def)
next
  show "markedPositions (selectStep m st) =
          (if claimed m (markedPositions st) then markedPositions st
           else markedPositions st \<union> keyOf ` set (matchCells m))"
    by (auto simp: selectStep_def claimed_iff Let_def markSequencePositions_eq matchCells_def)
qed

theorem no_overlap_between_results_witness:
  "\<not> isl (analyzeRhymePatterns verseB defaultOptions) \<and> (0::nat) < 1 \<and>
   1 < length (analysisResults (projr (analyzeRhymePatterns verseB defaultOptions))) \<and>
   set (resultCells (analysisResults (projr (analyzeRhymePatterns verseB defaultOptions)) ! 0)) \<inter>
   set (resultCells (analysisResults (projr (analyzeRhymePatterns verseB defaultOptions)) ! 1)) = {}"
proof -
  have ok: "\<not> isl (analyzeRhymePatterns verseB defaultOptions)" by code_simp
  then have r: "analyzeRhymePatterns verseB defaultOptions =
                  Inr (projr (analyzeRhymePatterns verseB defaultOptions))" by simp
  have len: "1 < length (analysisResults (projr (analyzeRhymePatterns verseB defaultOptions)))"
    by code_simp
  have lt: "(0::nat) < 1" by simp
  from no_overlap_between_results[OF r lt len] ok len show ?thesis by simp
qed

text \<open>
  Claim C4, as stated, fails in two ways. On \<open>verseB\<close> under the default options the
  end rhyme between the last character of line 1 and the first character of line 0 and
  the internal rhyme of the first two characters of line 0 are both candidates and share
  the cell \<open>(0, 0)\<close>; the end rhyme is discarded, because a closer end rhyme inside
  line 1 has already claimed the last character of line 1, and the internal rhyme is
  committed. On \<open>verseF\<close> with a line tolerance of 1000 the end rhyme spans 901 lines,
  so its priority \<open>1000 - 901 + 10\<close> is below the priority \<open>100 - 0 + 10\<close> of the
  internal rhyme that shares the cell \<open>(0, 0)\<close> with it: the internal rhyme is committed
  first and it is what discards the end rhyme.
\<close>

theorem end_rhyme_precedence_counterexample:
  "useEndRhyme defaultOptions \<and>
   allPossibleMatches defaultOptions (linesOf verseB) = Inr (matchesOf defaultOptions verseB) \<and>
   map matchShape (matchesOf defaultOptions verseB) =
     [(EndRhyme, (1, 2, 2, True), (1, 0, 0, False)),
      (EndRhyme, (1, 2, 2, True), (0, 0, 0, False)),
      (EndRhyme, (1, 2, 2, True), (0, 1, 1, False)),
      (InterLineRhyme, (0, 0, 0, False), (1, 0, 0, False)),
      (InterLineRhyme, (0, 1, 1, False), (1, 0, 0, False)),
      (InternalRhyme, (0, 0, 0, False), (0, 1, 1, False))] \<and>
   (0, 0) \<in> set (matchCells (matchAt verseB 1)) \<and>
   (0, 0) \<in> set (matchCells (matchAt verseB 5)) \<and>
   map matchShape (chosen (matchesOf defaultOptions verseB) {}) =
     [(EndRhyme, (1, 2, 2, True), (1, 0, 0, False)),
      (InternalRhyme, (0, 0, 0, False), (0, 1, 1, False))] \<and>
   matchAt verseB 1 \<notin> set (chosen (matchesOf defaultOptions verseB) {}) \<and>
   matchAt verseB 5 \<in> set (chosen (matchesOf defaultOptions verseB) {}) \<and>
   \<not> isl (analyzeRhymePatterns verseB defaultOptions) \<and>
   map resultShape (resultsOf verseB defaultOptions) =
     [(EndRhyme, [(1, 2, 1), (1, 0, 1)]), (InternalRhyme, [(0, 0, 1), (0, 1, 1)])] \<and>
   useEndRhyme withWideLineDiff \<and>
   allPossibleMatches withWideLineDiff (linesOf verseF) = Inr (matchesOf withWideLineDiff verseF) \<and>
   map matchShape (matchesOf withWideLineDiff verseF) =
     [(InternalRhyme, (0, 0, 0, False), (0, 1, 1, False)),
      (EndRhyme, (901, 0, 0, True), (0, 0, 0, False)),
      (EndRhyme, (901, 0, 0, True), (0, 1, 1, False))] \<and>
   map priority (matchesOf withWideLineDiff verseF) = [110, 109, 109] \<and>
   (0, 0) \<in> set (matchCells (matchesOf withWideLineDiff verseF ! 0)) \<and>
   (0, 0) \<in> set (matchCells (matchesOf withWideLineDiff verseF ! 1)) \<and>
   map matchShape (chosen (matchesOf withWideLineDiff verseF) {}) =
     [(InternalRhyme, (0, 0, 0, False), (0, 1, 1, False))] \<and>
   \<not> isl (analyzeRhymePatterns verseF withWideLineDiff) \<and>
   map resultShape (resultsOf verseF withWideLineDiff) =
     [(InternalRhyme, [(0, 0, 1), (0, 1, 1)])]"
proof -
  have b1: "useEndRhyme defaultOptions" by code_simp
  have b2: "map matchShape (matchesOf defaultOptions verseB) =
     [(EndRhyme, (1, 2, 2, True), (1, 0, 0, False)),
      (EndRhyme, (1, 2, 2, True), (0, 0, 0, False)),
      (EndRhyme, (1, 2, 2, True), (0, 1, 1, False)),
      (InterLineRhyme, (0, 0, 0, False), (1, 0, 0, False)),
      (InterLineRhyme, (0, 1, 1, False), (1, 0, 0, False)),
      (InternalRhyme, (0, 0, 0, False), (0, 1, 1, False))]" by code_simp
  have b3: "(0, 0) \<in> set (matchCells (matchAt verseB 1))"
    "(0, 0) \<in> set (matchCells (matchAt verseB 5))" by code_simp+
  have b4: "map matchShape (chosen (matchesOf defaultOptions verseB) {}) =
     [(EndRhyme, (1, 2, 2, True), (1, 0, 0, False)),
      (InternalRhyme, (0, 0, 0, False), (0, 1, 1, False))]" by code_simp
  have b5: "matchAt verseB 1 \<notin> set (chosen (matchesOf defaultOptions verseB) {})"
    "matchAt verseB 5 \<in> set (chosen (matchesOf defaultOptions verseB) {})" by code_simp+
  have b6: "\<not> isl (analyzeRhymePatterns verseB defaultOptions)" by code_simp
  have b7: "map resultShape (resultsOf verseB defaultOptions) =
     [(EndRhyme, [(1, 2, 1), (1, 0, 1)]), (InternalRhyme, [(0, 0, 1), (0, 1, 1)])]" by code_simp
  have f1: "useEndRhyme withWideLineDiff" by code_simp
  have f2: "map matchShape (matchesOf withWideLineDiff verseF) =
     [(InternalRhyme, (0, 0, 0, False), (0, 1, 1, False)),
      (EndRhyme, (901, 0, 0, True), (0, 0, 0, False)),
      (EndRhyme, (901, 0, 0, True), (0, 1, 1, False))]"
    unfolding matchesOf_def linesOf_verseF by code_simp
  have f3: "map priority (matchesOf withWideLineDiff verseF) = [110, 109, 109]"
    unfolding matchesOf_def linesOf_verseF by code_simp
  have f4: "(0, 0) \<in> set (matchCells (matchesOf withWideLineDiff verseF ! 0))"
    "(0, 0) \<in> set (matchCells (matchesOf withWideLineDiff verseF ! 1))"
    unfolding matchesOf_def linesOf_verseF by code_simp+
  have f5: "map matchShape (chosen (matchesOf withWideLineDiff verseF) {}) =
     [(InternalRhyme, (0, 0, 0, False), (0, 1, 1, False))]"
    unfolding matchesOf_def linesOf_verseF by code_simp
  have f6: "\<not> isl (analyzeRhymePatterns verseF withWideLineDiff)"
    unfolding analyze_verseF by code_simp
  have f7: "map resultShape (resultsOf verseF withWideLineDiff) =
     [(InternalRhyme, [(0, 0, 1), (0, 1, 1)])]"
    unfolding resultsOf_def analyze_verseF by code_simp
  from b1 allPossibleMatches_matchesOf[of defaultOptions verseB] b2 b3 b4 b5 b6 b7
    f1 allPossibleMatches_matchesOf[of withWideLineDiff verseF] f2 f3 f4 f5 f6 f7
  show ?thesis by (intro conjI)
qed

text \<open>
  Claim C4, as the code has it. When an end rhyme \<open>E\<close> and an internal rhyme \<open>I\<close> of
  the candidate list share a cell, end-rhyme detection is on, the two are never both
  committed, and \<open>E\<close> is the one committed rather than \<open>I\<close> unless a committed
  candidate of priority at least that of \<open>E\<close> holds a cell of \<open>E\<close>. The priorities are
  \<open>1000 - interval + 10 * length\<close> for \<open>E\<close> and \<open>100 - interval + 10 * length\<close> for
  \<open>I\<close>, with the interval of \<open>E\<close> at most the line tolerance. Where the base of 1000
  against 100 is not outweighed, that is where
  \<open>interval E + 10 * length I < 900 + interval I + 10 * length E\<close>, the candidate \<open>E\<close>
  has the higher priority and the candidate that discards it is never \<open>I\<close>.
\<close>

theorem end_rhyme_precedence:
  assumes "allPossibleMatches opts rg = Inr ms"
    and "E \<in> set ms" and "I \<in> set ms"
    and "snd (rhymeType E) = EndRhyme" and "snd (rhymeType I) = InternalRhyme"
    and "set (matchCells E) \<inter> set (matchCells I) \<noteq> {}"
  shows "useEndRhyme opts \<and>
         \<not> (E \<in> set (chosen ms {}) \<and> I \<in> set (chosen ms {})) \<and>
         (\<not> (\<exists>K\<in>set (chosen ms {}). K \<noteq> E \<and> priority E \<le> priority K \<and>
                set (matchCells K) \<inter> set (matchCells E) \<noteq> {}) \<longrightarrow>
            E \<in> set (chosen ms {}) \<and> I \<notin> set (chosen ms {})) \<and>
         priority E = 1000 - interval E + int (sequenceLength E) * 10 \<and>
         priority I = 100 - interval I + int (sequenceLength I) * 10 \<and>
         0 \<le> interval E \<and> interval E \<le> tolLineDiff opts \<and> 0 \<le> interval I \<and>
         (interval E + int (sequenceLength I) * 10 < 900 + interval I + int (sequenceLength E) * 10 \<longrightarrow>
            priority I < priority E \<and>
            (\<not> (\<exists>K\<in>set (chosen ms {}). K \<noteq> E \<and> K \<noteq> I \<and> priority E \<le> priority K \<and>
                   set (matchCells K) \<inter> set (matchCells E) \<noteq> {}) \<longrightarrow>
               E \<in> set (chosen ms {}) \<and> I \<notin> set (chosen ms {}))) \<and>
         committed (selectMatches ms) = map mkResult (chosen ms {})"
proof -
  note cE = allPossibleMatches_mem(3)[OF assms(1,2)]
  note cI = allPossibleMatches_mem(3)[OF assms(1,3)]
  note pE = classifyPair_end_priority[OF cE assms(4)]
  note pI = classifyPair_internal_priority[OF cI assms(5)]
  from assms(4,5) have ne: "E \<noteq> I" by auto
  have on: "useEndRhyme opts" using classifyPair_kind(1)[OF cE] assms(4) by blast
  have nb: "\<not> (E \<in> set (chosen ms {}) \<and> I \<in> set (chosen ms {}))"
    using chosen_not_both[OF _ _ ne] assms(6) by blast
  have blocked: "\<exists>K\<in>set (chosen ms {}). K \<noteq> E \<and> priority E \<le> priority K \<and>
                   set (matchCells K) \<inter> set (matchCells E) \<noteq> {}"
    if "E \<notin> set (chosen ms {})"
  proof -
    from blocked_by_earlier[OF allPossibleMatches_sorted[OF assms(1)] assms(2) that]
    obtain K where K: "K \<in> set (chosen ms {})" "priority E \<le> priority K"
      "set (matchCells K) \<inter> set (matchCells E) \<noteq> {}" by blast
    with that have "K \<noteq> E" by blast
    with K show ?thesis by blast
  qed
  have pos: "\<not> (\<exists>K\<in>set (chosen ms {}). K \<noteq> E \<and> priority E \<le> priority K \<and>
                set (matchCells K) \<inter> set (matchCells E) \<noteq> {}) \<longrightarrow>
            E \<in> set (chosen ms {}) \<and> I \<notin> set (chosen ms {})"
    using blocked nb by blast
  have cond: "interval E + int (sequenceLength I) * 10 < 900 + interval I + int (sequenceLength E) * 10 \<longrightarrow>
            priority I < priority E \<and>
            (\<not> (\<exists>K\<in>set (chosen ms {}). K \<noteq> E \<and> K \<noteq> I \<and> priority E \<le> priority K \<and>
                   set (matchCells K) \<inter> set (matchCells E) \<noteq> {}) \<longrightarrow>
               E \<in> set (chosen ms {}) \<and> I \<notin> set (chosen ms {}))"
  proof (intro impI conjI)
    assume c: "interval E + int (sequenceLength I) * 10 < 900 + interval I + int (sequenceLength E) * 10"
    with pE(1) pI(1) show lt: "priority I < priority E" by simp
    assume no: "\<not> (\<exists>K\<in>set (chosen ms {}). K \<noteq> E \<and> K \<noteq> I \<and> priority E \<le> priority K \<and>
                   set (matchCells K) \<inter> set (matchCells E) \<noteq> {})"
    show "E \<in> set (chosen ms {})"
    proof (rule ccontr)
      assume "E \<notin> set (chosen ms {})"
      from blocked[OF this] obtain K where K: "K \<in> set (chosen ms {})" "K \<noteq> E"
        "priority E \<le> priority K" "set (matchCells K) \<inter> set (matchCells E) \<noteq> {}" by blast
      with lt have "K \<noteq> I" by auto
      with K no show False by blast
    qed
    with nb show "I \<notin> set (chosen ms {})" by blast
  qed
  from on nb pos pE pI cond committed_selectMatches[of ms] show ?thesis by (intro conjI)
qed

theorem end_rhyme_precedence_witness:
  "allPossibleMatches defaultOptions (linesOf verseB) = Inr (matchesOf defaultOptions verseB) \<and>
   matchAt verseB 1 \<in> set (matchesOf defaultOptions verseB) \<and>
   matchAt verseB 5 \<in> set (matchesOf defaultOptions verseB) \<and>
   snd (rhymeType (matchAt verseB 1)) = EndRhyme \<and>
   snd (rhymeType (matchAt verseB 5)) = InternalRhyme \<and>
   set (matchCells (matchAt verseB 1)) \<inter> set (matchCells (matchAt verseB 5)) \<noteq> {} \<and>
   useEndRhyme defaultOptions \<and>
   interval (matchAt verseB 1) + int (sequenceLength (matchAt verseB 5)) * 10 <
     900 + interval (matchAt verseB 5) + int (sequenceLength (matchAt verseB 1)) * 10 \<and>
   priority (matchAt verseB 5) < priority (matchAt verseB 1) \<and>
   matchAt verseB 1 \<notin> set (chosen (matchesOf defaultOptions verseB) {}) \<and>
   (\<exists>K\<in>set (chosen (matchesOf defaultOptions verseB) {}).
      K \<noteq> matchAt verseB 1 \<and> K \<noteq> matchAt verseB 5 \<and>
      priority (matchAt verseB 1) \<le> priority K \<and>
      set (matchCells K) \<inter> set (matchCells (matchAt verseB 1)) \<noteq> {}) \<and>
   allPossibleMatches defaultOptions (linesOf verseG) = Inr (matchesOf defaultOptions verseG) \<and>
   matchAt verseG 0 \<in> set (matchesOf defaultOptions verseG) \<and>
   matchAt verseG 2 \<in> set (matchesOf defaultOptions verseG) \<and>
   snd (rhymeType (matchAt verseG 0)) = EndRhyme \<and>
   snd (rhymeType (matchAt verseG 2)) = InternalRhyme \<and>
   set (matchCells (matchAt verseG 0)) \<inter> set (matchCells (matchAt verseG 2)) \<noteq> {} \<and>
   \<not> (\<exists>K\<in>set (chosen (matchesOf defaultOptions verseG) {}).
        K \<noteq> matchAt verseG 0 \<and> priority (matchAt verseG 0) \<le> priority K \<and>
        set (matchCells K) \<inter> set (matchCells (matchAt verseG 0)) \<noteq> {}) \<and>
   matchAt verseG 0 \<in> set (chosen (matchesOf defaultOptions verseG) {}) \<and>
   matchAt verseG 2 \<notin> set (chosen (matchesOf defaultOptions verseG) {})"
proof -
  let ?ms = "matchesOf defaultOptions verseB"
  let ?E = "matchAt verseB 1" and ?I = "matchAt verseB 5"
  let ?mg = "matchesOf defaultOptions verseG"
  let ?F = "matchAt verseG 0" and ?J = "matchAt verseG 2"
  note ms = allPossibleMatches_matchesOf[of defaultOptions verseB]
  note mg = allPossibleMatches_matchesOf[of defaultOptions verseG]
  have mem: "?E \<in> set ?ms" "?I \<in> set ?ms" by code_simp+
  have ty: "snd (rhymeType ?E) = EndRhyme" "snd (rhymeType ?I) = InternalRhyme" by code_simp+
  have sh: "set (matchCells ?E) \<inter> set (matchCells ?I) \<noteq> {}" by code_simp
  have cd: "interval ?E + int (sequenceLength ?I) * 10 < 900 + interval ?I + int (sequenceLength ?E) * 10"
    by code_simp
  have nc: "?E \<notin> set (chosen ?ms {})" by code_simp
  note T = end_rhyme_precedence[OF ms mem ty sh]
  from T have on: "useEndRhyme defaultOptions" by blast
  from T cd have lt: "priority ?I < priority ?E" by blast
  from T cd nc have bl: "\<exists>K\<in>set (chosen ?ms {}). K \<noteq> ?E \<and> K \<noteq> ?I \<and> priority ?E \<le> priority K \<and>
      set (matchCells K) \<inter> set (matchCells ?E) \<noteq> {}" by blast
  have memg: "?F \<in> set ?mg" "?J \<in> set ?mg" by code_simp+
  have tyg: "snd (rhymeType ?F) = EndRhyme" "snd (rhymeType ?J) = InternalRhyme" by code_simp+
  have shg: "set (matchCells ?F) \<inter> set (matchCells ?J) \<noteq> {}" by code_simp
  have fr: "\<not> (\<exists>K\<in>set (chosen ?mg {}). K \<noteq> ?F \<and> priority ?F \<le> priority K \<and>
        set (matchCells K) \<inter> set (matchCells ?F) \<noteq> {})" by code_simp
  note U = end_rhyme_precedence[OF mg memg tyg shg]
  from U fr have cm: "?F \<in> set (chosen ?mg {})" "?J \<notin> set (chosen ?mg {})" by blast+
  from ms mem ty sh on cd lt nc bl mg memg tyg shg fr cm show ?thesis by (intro conjI)
qed

text \<open>
  Claim C5. Two spans on different lines with the same literal characters are never
  an inter-line rhyme: not as the classification of the pair, not in the candidate list,
  not in the results. A pair that reaches the inter-line rule with the same characters
  gives no candidate of any type.
\<close>

theorem self_repeat_exclusion:
  "(classifyPair opts rg s1 s2 = Inr (Some m) \<and> snd (rhymeType m) = InterLineRhyme \<longrightarrow>
      chars s1 \<noteq> chars s2) \<and>
   (lineIndex s1 \<noteq> lineIndex s2 \<and> chars s1 = chars s2 \<and> useInterLineRhyme opts \<and>
    \<not> (useEndRhyme opts \<and> (isEndOfLine s1 \<or> isEndOfLine s2)) \<longrightarrow>
      classifyPair opts rg s1 s2 = Inr None) \<and>
   (allPossibleMatches opts rg = Inr ms \<longrightarrow>
      (\<forall>k\<in>set ms. snd (rhymeType k) = InterLineRhyme \<longrightarrow> chars (seq1 k) \<noteq> chars (seq2 k))) \<and>
   (analyzeRhymePatterns input opts = Inr a \<longrightarrow>
      (\<forall>r\<in>set (analysisResults a). snd (r_rhymeType r) = InterLineRhyme \<longrightarrow>
         (\<exists>c1 c2. r_chars r = [c1, c2] \<and> c1 \<noteq> c2)))"
proof (intro conjI impI ballI)
  assume "classifyPair opts rg s1 s2 = Inr (Some m) \<and> snd (rhymeType m) = InterLineRhyme"
  then show "chars s1 \<noteq> chars s2" using classifyPair_interline_chars by fastforce
next
  assume "lineIndex s1 \<noteq> lineIndex s2 \<and> chars s1 = chars s2 \<and> useInterLineRhyme opts \<and>
          \<not> (useEndRhyme opts \<and> (isEndOfLine s1 \<or> isEndOfLine s2))"
  then show "classifyPair opts rg s1 s2 = Inr None" by (intro classifyPair_skip_repeat) simp_all
next
  fix k
  assume ms: "allPossibleMatches opts rg = Inr ms" and k: "k \<in> set ms"
    and t: "snd (rhymeType k) = InterLineRhyme"
  from classifyPair_interline_chars[OF allPossibleMatches_mem(3)[OF ms k] t]
  show "chars (seq1 k) \<noteq> chars (seq2 k)" by auto
next
  fix r
  assume a: "analyzeRhymePatterns input opts = Inr a" and r: "r \<in> set (analysisResults a)"
    and t: "snd (r_rhymeType r) = InterLineRhyme"
  from result_from_match[OF a r] obtain rg' ms' k where
    ms: "allPossibleMatches opts rg' = Inr ms'" and k: "k \<in> set (chosen ms' {})" and
    ty: "r_rhymeType r = r_rhymeType (mkResult k)" and ch: "r_chars r = r_chars (mkResult k)" by blast
  from k chosen_subset have k': "k \<in> set ms'" by blast
  from t ty have "snd (rhymeType k) = InterLineRhyme" by (simp add: mkResult_def)
  from classifyPair_interline_chars[OF allPossibleMatches_mem(3)[OF ms k'] this]
  have "chars (seq1 k) \<noteq> chars (seq2 k)" by auto
  with ch show "\<exists>c1 c2. r_chars r = [c1, c2] \<and> c1 \<noteq> c2" by (simp add: mkResult_def)
qed

theorem self_repeat_exclusion_witness:
  "spanOf verseE 0 0 0 \<in> set (extractAllRhymeSequences (linesOf verseE)) \<and>
   spanOf verseE 1 0 0 \<in> set (extractAllRhymeSequences (linesOf verseE)) \<and>
   spanOf verseE 2 0 0 \<in> set (extractAllRhymeSequences (linesOf verseE)) \<and>
   classifyPair defaultOptions (linesOf verseE) (spanOf verseE 0 0 0) (spanOf verseE 1 0 0) =
     Inr (Some (matchAt verseE 0)) \<and>
   snd (rhymeType (matchAt verseE 0)) = InterLineRhyme \<and>
   chars (spanOf verseE 0 0 0) \<noteq> chars (spanOf verseE 1 0 0) \<and>
   lineIndex (spanOf verseE 0 0 0) \<noteq> lineIndex (spanOf verseE 2 0 0) \<and>
   chars (spanOf verseE 0 0 0) = chars (spanOf verseE 2 0 0) \<and>
   sequenceKey (spanOf verseE 0 0 0) = sequenceKey (spanOf verseE 2 0 0) \<and>
   useInterLineRhyme defaultOptions \<and>
   \<not> (useEndRhyme defaultOptions \<and>
        (isEndOfLine (spanOf verseE 0 0 0) \<or> isEndOfLine (spanOf verseE 2 0 0))) \<and>
   classifyPair defaultOptions (linesOf verseE) (spanOf verseE 0 0 0) (spanOf verseE 2 0 0) =
     Inr None \<and>
   matchAt verseE 0 \<in> set (matchesOf defaultOptions verseE) \<and>
   chars (seq1 (matchAt verseE 0)) \<noteq> chars (seq2 (matchAt verseE 0)) \<and>
   \<not> isl (analyzeRhymePatterns verseE defaultOptions) \<and>
   hd (resultsOf verseE defaultOptions) \<in> set (resultsOf verseE defaultOptions) \<and>
   snd (r_rhymeType (hd (resultsOf verseE defaultOptions))) = InterLineRhyme \<and>
   (\<exists>c1 c2. r_chars (hd (resultsOf verseE defaultOptions)) = [c1, c2] \<and> c1 \<noteq> c2)"
proof -
  let ?rg = "linesOf verseE"
  let ?ms = "matchesOf defaultOptions verseE"
  let ?a = "projr (analyzeRhymePatterns verseE defaultOptions)"
  let ?s0 = "spanOf verseE 0 0 0" and ?s1 = "spanOf verseE 1 0 0" and ?s2 = "spanOf verseE 2 0 0"
  note T1 = self_repeat_exclusion[of defaultOptions ?rg ?s0 ?s1 "matchAt verseE 0" ?ms verseE ?a]
  note T2 = self_repeat_exclusion[of defaultOptions ?rg ?s0 ?s2 "matchAt verseE 0" ?ms verseE ?a]
  have len: "0 < length ?rg" "1 < length ?rg" "2 < length ?rg"
    and le: "(0::nat) \<le> 0"
    and inl: "0 < length (charInfos (?rg ! 0))" "0 < length (charInfos (?rg ! 1))"
      "0 < length (charInfos (?rg ! 2))"
    and b: "buildSpan 0 (charInfos (?rg ! 0)) 0 0 = Some ?s0"
      "buildSpan 1 (charInfos (?rg ! 1)) 0 0 = Some ?s1"
      "buildSpan 2 (charInfos (?rg ! 2)) 0 0 = Some ?s2"
    by code_simp+
  have ex: "?s0 \<in> set (extractAllRhymeSequences ?rg)" "?s1 \<in> set (extractAllRhymeSequences ?rg)"
    "?s2 \<in> set (extractAllRhymeSequences ?rg)"
    using extracted_by_range[OF len(1) le inl(1) b(1)] extracted_by_range[OF len(2) le inl(2) b(2)]
      extracted_by_range[OF len(3) le inl(3) b(3)] by blast+
  have cl: "classifyPair defaultOptions ?rg ?s0 ?s1 = Inr (Some (matchAt verseE 0))" by code_simp
  have ty: "snd (rhymeType (matchAt verseE 0)) = InterLineRhyme" by code_simp
  have li: "lineIndex ?s0 \<noteq> lineIndex ?s2" by code_simp
  have ch: "chars ?s0 = chars ?s2" by code_simp
  have ky: "sequenceKey ?s0 = sequenceKey ?s2" by code_simp
  have on: "useInterLineRhyme defaultOptions" by code_simp
  have ne: "\<not> (useEndRhyme defaultOptions \<and> (isEndOfLine ?s0 \<or> isEndOfLine ?s2))" by code_simp
  have mem: "matchAt verseE 0 \<in> set ?ms" by code_simp
  have ok: "\<not> isl (analyzeRhymePatterns verseE defaultOptions)" by code_simp
  note r = analyze_resultsOf[OF ok]
  have rm: "hd (resultsOf verseE defaultOptions) \<in> set (resultsOf verseE defaultOptions)"
    by code_simp
  have rt: "snd (r_rhymeType (hd (resultsOf verseE defaultOptions))) = InterLineRhyme"
    by code_simp
  from T1 cl ty have f1: "chars ?s0 \<noteq> chars ?s1" by blast
  from T2 li ch on ne have f2: "classifyPair defaultOptions ?rg ?s0 ?s2 = Inr None" by blast
  from T1 allPossibleMatches_matchesOf[of defaultOptions verseE] mem ty
  have f3: "chars (seq1 (matchAt verseE 0)) \<noteq> chars (seq2 (matchAt verseE 0))" by blast
  from T1 r rm rt have f4: "\<exists>c1 c2. r_chars (hd (resultsOf verseE defaultOptions)) = [c1, c2] \<and> c1 \<noteq> c2"
    by auto
  from ex cl ty f1 li ch ky on ne f2 mem f3 ok rm rt f4 show ?thesis by (intro conjI)
qed

text \<open>
  Claim C6. For two different extracted spans of one line with equal keys that reach the
  internal-rhyme rule, the candidate list holds an internal rhyme of the pair exactly when
  the gap of the specification is at most the smaller length plus
  \<open>internalRhymeTolerance\<close>: the pair is listed at the bound and not listed, under any
  type, one above it. The interval of the candidate is the gap. The same holds for the
  value of \<open>classifyPair\<close> on the pair.
\<close>

theorem internal_rhyme_boundary:
  assumes "allPossibleMatches opts rg = Inr ms"
    and "s1 \<in> set (extractAllRhymeSequences rg)" and "s2 \<in> set (extractAllRhymeSequences rg)"
    and "s1 \<noteq> s2"
    and "lineIndex s1 = lineIndex s2" and "sequenceKey s1 = sequenceKey s2"
    and "0 \<le> tolLineDiff opts"
    and "useInternalRhyme opts"
    and "\<not> (useEndRhyme opts \<and> (isEndOfLine s1 \<or> isEndOfLine s2))"
  shows "((\<exists>m\<in>set ms. (seq1 m = s1 \<and> seq2 m = s2 \<or> seq1 m = s2 \<and> seq2 m = s1) \<and>
              snd (rhymeType m) = InternalRhyme \<and> interval m = gapBetween s1 s2 \<and>
              priority m = 100 - gapBetween s1 s2 + int (slength (seq1 m)) * 10)
          \<longleftrightarrow> gapBetween s1 s2 \<le> int (min (slength s1) (slength s2)) + tolInternal opts) \<and>
         (gapBetween s1 s2 = int (min (slength s1) (slength s2)) + tolInternal opts \<longrightarrow>
            (\<exists>m\<in>set ms. (seq1 m = s1 \<and> seq2 m = s2 \<or> seq1 m = s2 \<and> seq2 m = s1) \<and>
               snd (rhymeType m) = InternalRhyme)) \<and>
         (gapBetween s1 s2 = int (min (slength s1) (slength s2)) + tolInternal opts + 1 \<longrightarrow>
            \<not> (\<exists>m\<in>set ms. seq1 m = s1 \<and> seq2 m = s2 \<or> seq1 m = s2 \<and> seq2 m = s1)) \<and>
         (\<not> gapBetween s1 s2 \<le> int (min (slength s1) (slength s2)) + tolInternal opts \<longrightarrow>
            \<not> (\<exists>m\<in>set ms. seq1 m = s1 \<and> seq2 m = s2 \<or> seq1 m = s2 \<and> seq2 m = s1)) \<and>
         ((\<exists>m. classifyPair opts rg s1 s2 = Inr (Some m) \<and> snd (rhymeType m) = InternalRhyme \<and>
               interval m = gapBetween s1 s2 \<and>
               priority m = 100 - gapBetween s1 s2 + int (slength s1) * 10)
          \<longleftrightarrow> gapBetween s1 s2 \<le> int (min (slength s1) (slength s2)) + tolInternal opts) \<and>
         (\<not> gapBetween s1 s2 \<le> int (min (slength s1) (slength s2)) + tolInternal opts \<longrightarrow>
            classifyPair opts rg s1 s2 = Inr None)"
proof -
  let ?ok = "gapBetween s1 s2 \<le> int (min (slength s1) (slength s2)) + tolInternal opts"
  let ?pair = "\<lambda>m. seq1 m = s1 \<and> seq2 m = s2 \<or> seq1 m = s2 \<and> seq2 m = s1"
  note wf = extracted_wellFormed[OF assms(2)] extracted_wellFormed[OF assms(3)]
  from assms(9) have ne': "\<not> (useEndRhyme opts \<and> (isEndOfLine s2 \<or> isEndOfLine s1))" by blast
  have c12: "classifyPair opts rg s1 s2 =
           (if ?ok then Inr (Some (mkMatch s1 s2 InternalRhyme (gapBetween s1 s2) (100 - gapBetween s1 s2)))
            else Inr None)"
    by (rule classifyPair_internal_boundary[OF wf assms(5-9)])
  have c21: "classifyPair opts rg s2 s1 =
           (if ?ok then Inr (Some (mkMatch s2 s1 InternalRhyme (gapBetween s1 s2) (100 - gapBetween s1 s2)))
            else Inr None)"
    using classifyPair_internal_boundary[OF wf(2,1) assms(5)[symmetric] assms(6)[symmetric] assms(7,8) ne', of rg]
    by (simp add: gapBetween_sym[of s2 s1] min.commute)
  have listed: "\<exists>m\<in>set ms. ?pair m \<and> snd (rhymeType m) = InternalRhyme \<and>
                  interval m = gapBetween s1 s2 \<and>
                  priority m = 100 - gapBetween s1 s2 + int (slength (seq1 m)) * 10" if ok: ?ok
  proof -
    from pairsFrom_members[OF assms(2,3,4)]
    consider (a) "(s1, s2) \<in> set (pairsFrom (extractAllRhymeSequences rg))"
      | (b) "(s2, s1) \<in> set (pairsFrom (extractAllRhymeSequences rg))" by blast
    then show ?thesis
    proof cases
      case a
      let ?m = "mkMatch s1 s2 InternalRhyme (gapBetween s1 s2) (100 - gapBetween s1 s2)"
      from c12 ok have "classifyPair opts rg s1 s2 = Inr (Some ?m)" by simp
      from allPossibleMatches_complete[OF assms(1) a this] have "?m \<in> set ms" .
      then show ?thesis by (intro bexI[of _ ?m]) (simp_all add: mkMatch_def)
    next
      case b
      let ?m = "mkMatch s2 s1 InternalRhyme (gapBetween s1 s2) (100 - gapBetween s1 s2)"
      from c21 ok have "classifyPair opts rg s2 s1 = Inr (Some ?m)" by simp
      from allPossibleMatches_complete[OF assms(1) b this] have "?m \<in> set ms" .
      then show ?thesis by (intro bexI[of _ ?m]) (simp_all add: mkMatch_def)
    qed
  qed
  have unlisted: "\<not> (\<exists>m\<in>set ms. ?pair m)" if no: "\<not> ?ok"
  proof
    assume "\<exists>m\<in>set ms. ?pair m"
    then obtain m where m: "m \<in> set ms" and p: "?pair m" by blast
    note cl = allPossibleMatches_mem(3)[OF assms(1) m]
    from p show False
    proof
      assume "seq1 m = s1 \<and> seq2 m = s2"
      with cl c12 no show False by simp
    next
      assume "seq1 m = s2 \<and> seq2 m = s1"
      with cl c21 no show False by simp
    qed
  qed
  have iff: "(\<exists>m\<in>set ms. ?pair m \<and> snd (rhymeType m) = InternalRhyme \<and>
                  interval m = gapBetween s1 s2 \<and>
                  priority m = 100 - gapBetween s1 s2 + int (slength (seq1 m)) * 10) \<longleftrightarrow> ?ok"
    using listed unlisted by blast
  have bound: "gapBetween s1 s2 = int (min (slength s1) (slength s2)) + tolInternal opts \<longrightarrow>
            (\<exists>m\<in>set ms. ?pair m \<and> snd (rhymeType m) = InternalRhyme)"
    using listed by auto
  have above: "gapBetween s1 s2 = int (min (slength s1) (slength s2)) + tolInternal opts + 1 \<longrightarrow>
            \<not> (\<exists>m\<in>set ms. ?pair m)"
    using unlisted by auto
  have rej: "\<not> ?ok \<longrightarrow> \<not> (\<exists>m\<in>set ms. ?pair m)" using unlisted by blast
  have cls: "(\<exists>m. classifyPair opts rg s1 s2 = Inr (Some m) \<and> snd (rhymeType m) = InternalRhyme \<and>
               interval m = gapBetween s1 s2 \<and>
               priority m = 100 - gapBetween s1 s2 + int (slength s1) * 10) \<longleftrightarrow> ?ok"
    unfolding c12 by (simp add: mkMatch_def)
  have clr: "\<not> ?ok \<longrightarrow> classifyPair opts rg s1 s2 = Inr None" unfolding c12 by simp
  from iff bound above rej cls clr show ?thesis by (intro conjI)
qed

theorem internal_rhyme_boundary_witness:
  "allPossibleMatches defaultOptions (linesOf verseD) = Inr (matchesOf defaultOptions verseD) \<and>
   spanOf verseD 0 0 0 \<in> set (extractAllRhymeSequences (linesOf verseD)) \<and>
   spanOf verseD 0 2 2 \<in> set (extractAllRhymeSequences (linesOf verseD)) \<and>
   spanOf verseD 0 5 5 \<in> set (extractAllRhymeSequences (linesOf verseD)) \<and>
   spanOf verseD 0 0 0 \<noteq> spanOf verseD 0 2 2 \<and>
   spanOf verseD 0 2 2 \<noteq> spanOf verseD 0 5 5 \<and>
   lineIndex (spanOf verseD 0 0 0) = lineIndex (spanOf verseD 0 2 2) \<and>
   lineIndex (spanOf verseD 0 2 2) = lineIndex (spanOf verseD 0 5 5) \<and>
   sequenceKey (spanOf verseD 0 0 0) = sequenceKey (spanOf verseD 0 2 2) \<and>
   sequenceKey (spanOf verseD 0 2 2) = sequenceKey (spanOf verseD 0 5 5) \<and>
   0 \<le> tolLineDiff defaultOptions \<and> useInternalRhyme defaultOptions \<and>
   \<not> (useEndRhyme defaultOptions \<and>
        (isEndOfLine (spanOf verseD 0 0 0) \<or> isEndOfLine (spanOf verseD 0 2 2))) \<and>
   \<not> (useEndRhyme defaultOptions \<and>
        (isEndOfLine (spanOf verseD 0 2 2) \<or> isEndOfLine (spanOf verseD 0 5 5))) \<and>
   gapBetween (spanOf verseD 0 0 0) (spanOf verseD 0 2 2) = 1 \<and>
   int (min (slength (spanOf verseD 0 0 0)) (slength (spanOf verseD 0 2 2))) +
     tolInternal defaultOptions = 1 \<and>
   (\<exists>m\<in>set (matchesOf defaultOptions verseD).
      (seq1 m = spanOf verseD 0 0 0 \<and> seq2 m = spanOf verseD 0 2 2 \<or>
       seq1 m = spanOf verseD 0 2 2 \<and> seq2 m = spanOf verseD 0 0 0) \<and>
      snd (rhymeType m) = InternalRhyme \<and> interval m = 1) \<and>
   (\<exists>m. classifyPair defaultOptions (linesOf verseD) (spanOf verseD 0 0 0) (spanOf verseD 0 2 2) =
          Inr (Some m) \<and> snd (rhymeType m) = InternalRhyme \<and> interval m = 1) \<and>
   gapBetween (spanOf verseD 0 2 2) (spanOf verseD 0 5 5) = 2 \<and>
   int (min (slength (spanOf verseD 0 2 2)) (slength (spanOf verseD 0 5 5))) +
     tolInternal defaultOptions = 1 \<and>
   \<not> (\<exists>m\<in>set (matchesOf defaultOptions verseD).
        seq1 m = spanOf verseD 0 2 2 \<and> seq2 m = spanOf verseD 0 5 5 \<or>
        seq1 m = spanOf verseD 0 5 5 \<and> seq2 m = spanOf verseD 0 2 2) \<and>
   classifyPair defaultOptions (linesOf verseD) (spanOf verseD 0 2 2) (spanOf verseD 0 5 5) =
     Inr None"
proof -
  let ?rg = "linesOf verseD"
  let ?ms = "matchesOf defaultOptions verseD"
  let ?s0 = "spanOf verseD 0 0 0" and ?s2 = "spanOf verseD 0 2 2" and ?s5 = "spanOf verseD 0 5 5"
  note ms = allPossibleMatches_matchesOf[of defaultOptions verseD]
  have len: "0 < length ?rg"
    and le: "(0::nat) \<le> 0" "(2::nat) \<le> 2" "(5::nat) \<le> 5"
    and inl: "0 < length (charInfos (?rg ! 0))" "2 < length (charInfos (?rg ! 0))"
      "5 < length (charInfos (?rg ! 0))"
    and b: "buildSpan 0 (charInfos (?rg ! 0)) 0 0 = Some ?s0"
      "buildSpan 0 (charInfos (?rg ! 0)) 2 2 = Some ?s2"
      "buildSpan 0 (charInfos (?rg ! 0)) 5 5 = Some ?s5"
    by code_simp+
  have ex: "?s0 \<in> set (extractAllRhymeSequences ?rg)" "?s2 \<in> set (extractAllRhymeSequences ?rg)"
    "?s5 \<in> set (extractAllRhymeSequences ?rg)"
    using extracted_by_range[OF len le(1) inl(1) b(1)] extracted_by_range[OF len le(2) inl(2) b(2)]
      extracted_by_range[OF len le(3) inl(3) b(3)] by blast+
  have df: "?s0 \<noteq> ?s2" "?s2 \<noteq> ?s5" by code_simp+
  have li: "lineIndex ?s0 = lineIndex ?s2" "lineIndex ?s2 = lineIndex ?s5" by code_simp+
  have ky: "sequenceKey ?s0 = sequenceKey ?s2" "sequenceKey ?s2 = sequenceKey ?s5" by code_simp+
  have gate: "0 \<le> tolLineDiff defaultOptions" by code_simp
  have on: "useInternalRhyme defaultOptions" by code_simp
  have ne: "\<not> (useEndRhyme defaultOptions \<and> (isEndOfLine ?s0 \<or> isEndOfLine ?s2))"
    "\<not> (useEndRhyme defaultOptions \<and> (isEndOfLine ?s2 \<or> isEndOfLine ?s5))" by code_simp+
  have g1: "gapBetween ?s0 ?s2 = 1" by code_simp
  have b1: "int (min (slength ?s0) (slength ?s2)) + tolInternal defaultOptions = 1" by code_simp
  have g2: "gapBetween ?s2 ?s5 = 2" by code_simp
  have b2: "int (min (slength ?s2) (slength ?s5)) + tolInternal defaultOptions = 1" by code_simp
  note T1 = internal_rhyme_boundary[OF ms ex(1) ex(2) df(1) li(1) ky(1) gate on ne(1)]
  note T2 = internal_rhyme_boundary[OF ms ex(2) ex(3) df(2) li(2) ky(2) gate on ne(2)]
  from T1 g1 b1 have f1: "\<exists>m\<in>set ?ms. (seq1 m = ?s0 \<and> seq2 m = ?s2 \<or> seq1 m = ?s2 \<and> seq2 m = ?s0) \<and>
      snd (rhymeType m) = InternalRhyme \<and> interval m = 1" by auto
  from T1 g1 b1 have f2: "\<exists>m. classifyPair defaultOptions ?rg ?s0 ?s2 = Inr (Some m) \<and>
        snd (rhymeType m) = InternalRhyme \<and> interval m = 1" by auto
  from T2 g2 b2 have f3: "\<not> (\<exists>m\<in>set ?ms. seq1 m = ?s2 \<and> seq2 m = ?s5 \<or> seq1 m = ?s5 \<and> seq2 m = ?s2)"
    by simp
  from T2 g2 b2 have f4: "classifyPair defaultOptions ?rg ?s2 ?s5 = Inr None" by simp
  from ms ex df li ky gate on ne g1 b1 f1 f2 g2 b2 f3 f4 show ?thesis by (intro conjI)
qed

text \<open>
  Claim C7. No extracted span and no emitted result has the unknown label or the empty
  label in its sequence. The sequence of a span is the labels of its whole range, and
  a range that holds a character with such a label gives no span at all.
\<close>

theorem no_unknown_label:
  "(\<forall>sp\<in>set (extractAllRhymeSequences rg).
      unknownGroup \<notin> set (sequence sp) \<and> [] \<notin> set (sequence sp) \<and>
      sequence sp =
        map normalGroup (rangeOf (charInfos (rg ! lineIndex sp)) (startIndex sp) (endIndex sp))) \<and>
   (\<forall>c\<in>set (rangeOf (charInfos (rg ! li)) s e).
      normalGroup c = unknownGroup \<or> normalGroup c = [] \<longrightarrow>
      (\<forall>sp\<in>set (extractAllRhymeSequences rg).
         \<not> (lineIndex sp = li \<and> startIndex sp = s \<and> endIndex sp = e))) \<and>
   (analyzeRhymePatterns input opts = Inr a \<longrightarrow>
      (\<forall>r\<in>set (analysisResults a).
         unknownGroup \<notin> set (r_sequence r) \<and> [] \<notin> set (r_sequence r)))"
proof (intro conjI ballI impI)
  fix sp assume sp: "sp \<in> set (extractAllRhymeSequences rg)"
  from extracted_sequence[OF sp]
  show "unknownGroup \<notin> set (sequence sp)" "[] \<notin> set (sequence sp)"
    "sequence sp =
       map normalGroup (rangeOf (charInfos (rg ! lineIndex sp)) (startIndex sp) (endIndex sp))"
    by simp_all
next
  fix c sp
  assume c: "c \<in> set (rangeOf (charInfos (rg ! li)) s e)"
    and bad: "normalGroup c = unknownGroup \<or> normalGroup c = []"
    and sp: "sp \<in> set (extractAllRhymeSequences rg)"
  show "\<not> (lineIndex sp = li \<and> startIndex sp = s \<and> endIndex sp = e)"
  proof
    assume eq: "lineIndex sp = li \<and> startIndex sp = s \<and> endIndex sp = e"
    with extracted_span(4)[OF sp] have "buildSpan li (charInfos (rg ! li)) s e = Some sp" by simp
    moreover from c bad have "buildSpan li (charInfos (rg ! li)) s e = None"
      unfolding buildSpan_None by blast
    ultimately show False by simp
  qed
next
  fix r
  assume a: "analyzeRhymePatterns input opts = Inr a" and r: "r \<in> set (analysisResults a)"
  from result_from_match[OF a r] obtain rg' ms m where
    ms: "allPossibleMatches opts rg' = Inr ms" and m: "m \<in> set (chosen ms {})" and
    sq: "r_sequence r = r_sequence (mkResult m)" by blast
  from m chosen_subset have m': "m \<in> set ms" by blast
  from allPossibleMatches_mem[OF ms m'] have
    s1: "seq1 m \<in> set (extractAllRhymeSequences rg')" and
    cl: "classifyPair opts rg' (seq1 m) (seq2 m) = Inr (Some m)" by simp_all
  from sq classifyPair_Some(3)[OF cl] have "r_sequence r = sequence (seq1 m)"
    by (simp add: mkResult_def)
  with extracted_sequence(2,3)[OF s1]
  show "unknownGroup \<notin> set (r_sequence r)" "[] \<notin> set (r_sequence r)" by simp_all
qed

theorem no_unknown_label_witness:
  "spanOf verseU 0 0 0 \<in> set (extractAllRhymeSequences (linesOf verseU)) \<and>
   unknownGroup \<notin> set (sequence (spanOf verseU 0 0 0)) \<and>
   [] \<notin> set (sequence (spanOf verseU 0 0 0)) \<and>
   charInfos (linesOf verseU ! 0) ! 1 \<in> set (rangeOf (charInfos (linesOf verseU ! 0)) 0 2) \<and>
   normalGroup (charInfos (linesOf verseU ! 0) ! 1) = unknownGroup \<and>
   list_all (\<lambda>sp. \<not> (lineIndex sp = 0 \<and> startIndex sp = 0 \<and> endIndex sp = 2))
     (extractAllRhymeSequences (linesOf verseU)) \<and>
   \<not> isl (analyzeRhymePatterns verseU defaultOptions) \<and>
   hd (resultsOf verseU defaultOptions) \<in> set (resultsOf verseU defaultOptions) \<and>
   unknownGroup \<notin> set (r_sequence (hd (resultsOf verseU defaultOptions))) \<and>
   [] \<notin> set (r_sequence (hd (resultsOf verseU defaultOptions)))"
proof -
  let ?rg = "linesOf verseU"
  let ?c = "charInfos (?rg ! 0) ! 1"
  let ?a = "projr (analyzeRhymePatterns verseU defaultOptions)"
  note T = no_unknown_label[of ?rg 0 0 2 verseU defaultOptions ?a]
  have "0 < length ?rg" "(0::nat) \<le> 0" "0 < length (charInfos (?rg ! 0))"
    "buildSpan 0 (charInfos (?rg ! 0)) 0 0 = Some (spanOf verseU 0 0 0)" by code_simp+
  then have sp: "spanOf verseU 0 0 0 \<in> set (extractAllRhymeSequences ?rg)"
    by (rule extracted_by_range)
  have c: "?c \<in> set (rangeOf (charInfos (?rg ! 0)) 0 2)" by code_simp
  have bad: "normalGroup ?c = unknownGroup" by code_simp
  have ok: "\<not> isl (analyzeRhymePatterns verseU defaultOptions)" by code_simp
  note r = analyze_resultsOf[OF ok]
  have mem: "hd (resultsOf verseU defaultOptions) \<in> set (resultsOf verseU defaultOptions)"
    by code_simp
  from T sp have f1: "unknownGroup \<notin> set (sequence (spanOf verseU 0 0 0))"
    "[] \<notin> set (sequence (spanOf verseU 0 0 0))" by blast+
  from T c bad have "\<forall>sp\<in>set (extractAllRhymeSequences ?rg).
      \<not> (lineIndex sp = 0 \<and> startIndex sp = 0 \<and> endIndex sp = 2)" by blast
  then have f2: "list_all (\<lambda>sp. \<not> (lineIndex sp = 0 \<and> startIndex sp = 0 \<and> endIndex sp = 2))
     (extractAllRhymeSequences ?rg)" unfolding list_all_iff .
  from T r mem have f3: "unknownGroup \<notin> set (r_sequence (hd (resultsOf verseU defaultOptions)))"
    "[] \<notin> set (r_sequence (hd (resultsOf verseU defaultOptions)))" by auto
  from sp f1 c bad f2 ok mem f3 show ?thesis by (intro conjI)
qed

text \<open>
  Claim C8. An input that is not an array, a line without a string \<open>line\<close> or an
  array \<open>charInfos\<close>, and a character entry without one of its four string fields each
  raise an error with a message of its own, whatever the options; the first offending
  line decides. A result is returned exactly for the valid inputs.
\<close>

theorem input_validation:
  "(\<not> isArray input \<longrightarrow> analyzeRhymePatterns input opts = Inl (Error msgNotArray)) \<and>
   (list_all groupValid pre \<and> \<not> lineShaped g \<longrightarrow>
      analyzeRhymePatterns (JArr (pre @ g # post)) opts = Inl (Error msgBadGroup)) \<and>
   (list_all groupValid pre \<and> lineShaped g \<and> \<not> groupValid g \<longrightarrow>
      analyzeRhymePatterns (JArr (pre @ g # post)) opts = Inl (Error msgBadCharInfo)) \<and>
   distinct [msgNotArray, msgBadGroup, msgBadCharInfo] \<and>
   ((\<exists>a. analyzeRhymePatterns input opts = Inr a) \<longleftrightarrow> verseValid input)"
proof (intro conjI impI)
  assume "\<not> isArray input"
  then show "analyzeRhymePatterns input opts = Inl (Error msgNotArray)"
    by (cases input) (simp_all add: analyzeRhymePatterns_def)
next
  assume "list_all groupValid pre \<and> \<not> lineShaped g"
  then show "analyzeRhymePatterns (JArr (pre @ g # post)) opts = Inl (Error msgBadGroup)"
    using analyze_first_bad validateGroup_unshaped by blast
next
  assume "list_all groupValid pre \<and> lineShaped g \<and> \<not> groupValid g"
  then show "analyzeRhymePatterns (JArr (pre @ g # post)) opts = Inl (Error msgBadCharInfo)"
    using analyze_first_bad validateGroup_badChar by blast
next
  show "distinct [msgNotArray, msgBadGroup, msgBadCharInfo]"
    by (simp add: msgNotArray_def msgBadGroup_def msgBadCharInfo_def)
next
  show "(\<exists>a. analyzeRhymePatterns input opts = Inr a) \<longleftrightarrow> verseValid input"
    by (rule analyze_valid_iff)
qed

theorem input_validation_witness:
  "\<not> isArray JNull \<and>
   analyzeRhymePatterns JNull defaultOptions = Inl (Error msgNotArray) \<and>
   list_all groupValid [goodLine] \<and> \<not> lineShaped lineWithoutChars \<and>
   analyzeRhymePatterns (JArr ([goodLine] @ lineWithoutChars # [goodLine])) defaultOptions =
     Inl (Error msgBadGroup) \<and>
   lineShaped lineWithBadChar \<and> \<not> groupValid lineWithBadChar \<and>
   analyzeRhymePatterns (JArr ([goodLine] @ lineWithBadChar # [goodLine])) defaultOptions =
     Inl (Error msgBadCharInfo) \<and>
   distinct [msgNotArray, msgBadGroup, msgBadCharInfo] \<and>
   verseValid verseB \<and> (\<exists>a. analyzeRhymePatterns verseB defaultOptions = Inr a)"
proof -
  note T1 = input_validation[of JNull defaultOptions "[goodLine]" lineWithoutChars "[goodLine]"]
  note T2 = input_validation[of verseB defaultOptions "[goodLine]" lineWithBadChar "[goodLine]"]
  have na: "\<not> isArray JNull" by simp
  have pre: "list_all groupValid [goodLine]" by code_simp
  have g1: "\<not> lineShaped lineWithoutChars" by code_simp
  have g2: "lineShaped lineWithBadChar" "\<not> groupValid lineWithBadChar" by code_simp+
  have vb: "verseValid verseB" by code_simp
  from T1 na have f1: "analyzeRhymePatterns JNull defaultOptions = Inl (Error msgNotArray)" by blast
  from T1 pre g1 have f2: "analyzeRhymePatterns (JArr ([goodLine] @ lineWithoutChars # [goodLine])) defaultOptions =
     Inl (Error msgBadGroup)" by blast
  from T2 pre g2 have f3: "analyzeRhymePatterns (JArr ([goodLine] @ lineWithBadChar # [goodLine])) defaultOptions =
     Inl (Error msgBadCharInfo)" by blast
  from T1 have f4: "distinct [msgNotArray, msgBadGroup, msgBadCharInfo]" by blast
  from T2 vb have f5: "\<exists>a. analyzeRhymePatterns verseB defaultOptions = Inr a" by blast
  from na f1 pre g1 f2 g2 f3 f4 vb f5 show ?thesis by (intro conjI)
qed

text \<open>
  Claim C9. On the empty verse \<open>analyzeRhymePatterns\<close> raises nothing: whatever the
  options, it returns the result with no lines, no rhyme results and both counters 0.
\<close>

theorem empty_verse_result:
  "analyzeRhymePatterns (JArr []) opts =
     Inr \<lparr> rhymeGroups = JArr [], analysisResults = [],
           summary = \<lparr> totalLines = 0, totalRhymeCount = 0,
                       rhymeTypes = \<lparr> endRhyme = 0, internalRhyme = 0 \<rparr> \<rparr> \<rparr>"
  by (simp add: analyzeRhymePatterns_def)

text \<open>
  Claim C10. Disjointness holds between results only. With the default options there is
  a valid verse (\<open>verseA\<close>) with a committed internal rhyme whose own two positions
  share a character cell.
\<close>

theorem overlap_within_one_result:
  "\<exists>input a r p q c.
     analyzeRhymePatterns input defaultOptions = Inr a \<and> r \<in> set (analysisResults a) \<and>
     snd (r_rhymeType r) = InternalRhyme \<and> positions r = [p, q] \<and>
     c \<in> set (positionCells p) \<and> c \<in> set (positionCells q)"
proof -
  let ?a = "projr (analyzeRhymePatterns verseA defaultOptions)"
  let ?r = "hd (analysisResults ?a)"
  have "\<not> isl (analyzeRhymePatterns verseA defaultOptions)" by code_simp
  then have 1: "analyzeRhymePatterns verseA defaultOptions = Inr ?a" by simp
  have 2: "?r \<in> set (analysisResults ?a)" by code_simp
  have 3: "snd (r_rhymeType ?r) = InternalRhyme" by code_simp
  have 4: "positions ?r = [\<lparr>pline = 0, pchar = 0, plength = 2\<rparr>, \<lparr>pline = 0, pchar = 1, plength = 2\<rparr>]"
    by code_simp
  have 5: "(0, 1) \<in> set (positionCells \<lparr>pline = 0, pchar = 0, plength = 2\<rparr>)"
          "(0, 1) \<in> set (positionCells \<lparr>pline = 0, pchar = 1, plength = 2\<rparr>)"
    by code_simp+
  from 1 2 3 4 5 show ?thesis by blast
qed

end
